theory Spec2Isabelle
  imports Complex_Main
begin

section \<open>The draggable canvas of \<open>src/Canvas.tsx\<close>\<close>

text \<open>
  The component keeps its state in React refs and reacts to pointer events and to
  animation-frame callbacks. The model threads one record through every handler. The
  numbers of the source are JavaScript numbers; they are modelled as reals, so rounding,
  \<open>NaN\<close> and the infinities of IEEE doubles are outside the model. Where a count depends
  on how the product \<open>velocity * 0.9\<close> is rounded, at the threshold of the stop test, the
  multiplication is a parameter (\<open>animateMomentumWith\<close>) and only a bound on its error is
  assumed.
\<close>

subsection \<open>Data\<close>

text \<open>The object literals \<open>{ x, y }\<close> of the source.\<close>

record vec =
  xc :: real
  yc :: real

text \<open>One entry of the card list \<open>steps\<close>.\<close>

record card =
  card_id :: nat
  title :: string
  height :: real

definition steps :: "card list" where
  "steps =
    [\<lparr>card_id = 1, title = ''Card 1'', height = 200\<rparr>,
     \<lparr>card_id = 2, title = ''Card 2'', height = 400\<rparr>,
     \<lparr>card_id = 3, title = ''Card 3'', height = 150\<rparr>,
     \<lparr>card_id = 4, title = ''Card 4'', height = 150\<rparr>,
     \<lparr>card_id = 5, title = ''Card 5'', height = 150\<rparr>,
     \<lparr>card_id = 6, title = ''Card 6'', height = 150\<rparr>,
     \<lparr>card_id = 7, title = ''Card 7'', height = 150\<rparr>,
     \<lparr>card_id = 8, title = ''Card 8'', height = 150\<rparr>,
     \<lparr>card_id = 9, title = ''Card 9'', height = 150\<rparr>,
     \<lparr>card_id = 10, title = ''Card 10'', height = 150\<rparr>]"

definition cardWidth :: real where
  "cardWidth = 200"

definition gap :: real where
  "gap = 20"

definition paddingX :: real where
  "paddingX = 16 * 2"

text \<open>
  The two layout metrics the handlers read. They are a parameter of every handler, so
  that a scenario can choose other content extents than those of the card list above.
\<close>

record layout =
  totalWidth :: real
  tallestCard :: real

text \<open>
  \<open>Math.max(...heights)\<close> of a non-empty list; the source's list is a non-empty literal
  (of an empty one JavaScript gives \<open>-Infinity\<close>, which is \<open>None\<close> here).
\<close>

fun maxOf :: "real list \<Rightarrow> real option" where
  "maxOf [] = None"
| "maxOf (h # hs) = Some (fold max hs h)"

definition layoutOf :: "card list \<Rightarrow> layout option" where
  "layoutOf ss =
    (case maxOf (map height ss) of
       None \<Rightarrow> None
     | Some t \<Rightarrow>
         Some \<lparr>totalWidth = real (length ss) * cardWidth + (real (length ss) - 1) * gap + paddingX,
               tallestCard = t\<rparr>)"

text \<open>
  What the handlers read from the document at the time they run: whether the content
  element is mounted (\<open>contentRef.current\<close>), the container's \<open>clientWidth\<close>
  (\<open>None\<close> when \<open>containerRef.current\<close> is null) and the window's inner size.
\<close>

record dom =
  contentMounted :: bool
  clientWidth :: "real option"
  innerWidth :: real
  innerHeight :: real

text \<open>The callbacks handed to \<open>requestAnimationFrame\<close>.\<close>

datatype callback = AnimateMomentum | UpdateTransform

text \<open>
  The five refs of the component, followed by the part of the browser the handlers act
  on: the transform last written to the content element, the pointer captured by the
  container, the animation-frame callbacks not yet run (in the order they were
  requested, each with its handle) and the next handle the browser will give out.
\<close>

record canvas =
  offset :: vec
  isDragging :: bool
  lastPos :: vec
  velocity :: vec
  animationFrame :: "nat option"
  transform :: "vec option"
  capture :: "nat option"
  pending :: "(nat \<times> callback) list"
  nextHandle :: nat

definition Canvas :: canvas where
  "Canvas =
    \<lparr>offset = \<lparr>xc = 0, yc = 0\<rparr>,
     isDragging = False,
     lastPos = \<lparr>xc = 0, yc = 0\<rparr>,
     velocity = \<lparr>xc = 0, yc = 0\<rparr>,
     animationFrame = None,
     transform = None,
     capture = None,
     pending = [],
     nextHandle = 1\<rparr>"

subsection \<open>Browser primitives\<close>

text \<open>\<open>requestAnimationFrame\<close> queues the callback under a fresh handle, which it returns.\<close>

definition requestAnimationFrame :: "callback \<Rightarrow> canvas \<Rightarrow> nat \<times> canvas" where
  "requestAnimationFrame cb s =
    (nextHandle s,
     s\<lparr>pending := pending s @ [(nextHandle s, cb)], nextHandle := Suc (nextHandle s)\<rparr>)"

text \<open>\<open>cancelAnimationFrame\<close> drops the callback queued under the handle, if there is one.\<close>

definition cancelAnimationFrame :: "nat \<Rightarrow> canvas \<Rightarrow> canvas" where
  "cancelAnimationFrame h s = s\<lparr>pending := filter (\<lambda>p. fst p \<noteq> h) (pending s)\<rparr>"

definition setPointerCapture :: "nat \<Rightarrow> canvas \<Rightarrow> canvas" where
  "setPointerCapture pid s = s\<lparr>capture := Some pid\<rparr>"

definition releasePointerCapture :: "nat \<Rightarrow> canvas \<Rightarrow> canvas" where
  "releasePointerCapture pid s = (if capture s = Some pid then s\<lparr>capture := None\<rparr> else s)"

subsection \<open>Bounds\<close>

text \<open>\<open>containerRef.current?.clientWidth || window.innerWidth\<close>: a missing or zero width is falsy.\<close>

definition containerWidth :: "dom \<Rightarrow> real" where
  "containerWidth D =
    (case clientWidth D of
       None \<Rightarrow> innerWidth D
     | Some w \<Rightarrow> if w = 0 then innerWidth D else w)"

definition minX :: "layout \<Rightarrow> dom \<Rightarrow> real" where
  "minX L D = min 0 (containerWidth D - totalWidth L)"

definition minY :: "layout \<Rightarrow> dom \<Rightarrow> real" where
  "minY L D = min 0 (innerHeight D - tallestCard L - 32)"

text \<open>
  The source clamps inline, with the same expression in both places that write the
  offset: \<open>Math.max(minX, Math.min(0, v))\<close> on each axis.
\<close>

record bounds =
  bminX :: real
  bminY :: real

definition boundsOf :: "layout \<Rightarrow> dom \<Rightarrow> bounds" where
  "boundsOf L D = \<lparr>bminX = minX L D, bminY = minY L D\<rparr>"

definition clamp :: "bounds \<Rightarrow> vec \<Rightarrow> vec" where
  "clamp b p = \<lparr>xc = max (bminX b) (min 0 (xc p)), yc = max (bminY b) (min 0 (yc p))\<rparr>"

definition inBounds :: "bounds \<Rightarrow> vec \<Rightarrow> bool" where
  "inBounds b p \<longleftrightarrow> bminX b \<le> xc p \<and> xc p \<le> 0 \<and> bminY b \<le> yc p \<and> yc p \<le> 0"

subsection \<open>Handlers\<close>

definition updateTransform :: "dom \<Rightarrow> canvas \<Rightarrow> canvas" where
  "updateTransform D s = (if contentMounted D then s\<lparr>transform := Some (offset s)\<rparr> else s)"

definition animateMomentum :: "layout \<Rightarrow> dom \<Rightarrow> canvas \<Rightarrow> canvas" where
  "animateMomentum L D s =
    (let s1 = s\<lparr>offset :=
                 \<lparr>xc = max (minX L D) (min 0 (xc (offset s) + xc (velocity s))),
                  yc = max (minY L D) (min 0 (yc (offset s) + yc (velocity s)))\<rparr>\<rparr>;
         s2 = s1\<lparr>velocity := \<lparr>xc = xc (velocity s1) * 0.9, yc = yc (velocity s1) * 0.9\<rparr>\<rparr>;
         s3 = updateTransform D s2
     in if \<bar>xc (velocity s3)\<bar> > 0.5 \<or> \<bar>yc (velocity s3)\<bar> > 0.5
        then (let (h, s4) = requestAnimationFrame AnimateMomentum s3
              in s4\<lparr>animationFrame := Some h\<rparr>)
        else s3)"

text \<open>\<open>if (animationFrame.current)\<close> is a truthiness test: null and 0 do not cancel.\<close>

definition onPointerDown :: "nat \<Rightarrow> real \<Rightarrow> real \<Rightarrow> canvas \<Rightarrow> canvas" where
  "onPointerDown pointerId clientX clientY s =
    (let s1 = (case animationFrame s of
                 None \<Rightarrow> s
               | Some h \<Rightarrow> if h = 0 then s else cancelAnimationFrame h s);
         s2 = s1\<lparr>isDragging := True,
                 lastPos := \<lparr>xc = clientX, yc = clientY\<rparr>,
                 velocity := \<lparr>xc = 0, yc = 0\<rparr>\<rparr>
     in setPointerCapture pointerId s2)"

definition onPointerMove :: "layout \<Rightarrow> dom \<Rightarrow> real \<Rightarrow> real \<Rightarrow> canvas \<Rightarrow> canvas" where
  "onPointerMove L D clientX clientY s =
    (if \<not> isDragging s then s
     else
       (let dx = clientX - xc (lastPos s);
            dy = clientY - yc (lastPos s);
            s1 = s\<lparr>offset :=
                    \<lparr>xc = max (minX L D) (min 0 (xc (offset s) + dx)),
                     yc = max (minY L D) (min 0 (yc (offset s) + dy))\<rparr>\<rparr>;
            s2 = s1\<lparr>velocity := \<lparr>xc = dx, yc = dy\<rparr>\<rparr>;
            s3 = s2\<lparr>lastPos := \<lparr>xc = clientX, yc = clientY\<rparr>\<rparr>
        in snd (requestAnimationFrame UpdateTransform s3)))"

definition onPointerUp :: "nat \<Rightarrow> canvas \<Rightarrow> canvas" where
  "onPointerUp pointerId s =
    (let s1 = s\<lparr>isDragging := False\<rparr>;
         s2 = releasePointerCapture pointerId s1;
         (h, s3) = requestAnimationFrame AnimateMomentum s2
     in s3\<lparr>animationFrame := Some h\<rparr>)"

subsection \<open>Events and runs\<close>

text \<open>
  One display refresh: the browser takes the callbacks queued so far, in order, and runs
  them; a callback requested while they run waits for the next refresh.
\<close>

definition runCallback :: "layout \<Rightarrow> dom \<Rightarrow> callback \<Rightarrow> canvas \<Rightarrow> canvas" where
  "runCallback L D cb s =
    (case cb of AnimateMomentum \<Rightarrow> animateMomentum L D s | UpdateTransform \<Rightarrow> updateTransform D s)"

definition runFrame :: "layout \<Rightarrow> dom \<Rightarrow> canvas \<Rightarrow> canvas" where
  "runFrame L D s = fold (\<lambda>p. runCallback L D (snd p)) (pending s) (s\<lparr>pending := []\<rparr>)"

text \<open>
  The listeners registered by the effect: \<open>pointerup\<close> and \<open>pointerleave\<close> share the
  handler \<open>onPointerUp\<close>. \<open>Frame\<close> is a display refresh.
\<close>

datatype event =
    PointerDown nat real real
  | PointerMove real real
  | PointerUp nat
  | PointerLeave nat
  | Frame

fun dispatch :: "layout \<Rightarrow> dom \<Rightarrow> event \<Rightarrow> canvas \<Rightarrow> canvas" where
  "dispatch L D (PointerDown pointerId clientX clientY) s = onPointerDown pointerId clientX clientY s"
| "dispatch L D (PointerMove clientX clientY) s = onPointerMove L D clientX clientY s"
| "dispatch L D (PointerUp pointerId) s = onPointerUp pointerId s"
| "dispatch L D (PointerLeave pointerId) s = onPointerUp pointerId s"
| "dispatch L D Frame s = runFrame L D s"

text \<open>A run: each event comes with the document as it is when the event is handled.\<close>

fun run :: "layout \<Rightarrow> (dom \<times> event) list \<Rightarrow> canvas \<Rightarrow> canvas" where
  "run L [] s = s"
| "run L (de # des) s = run L des (dispatch L (fst de) (snd de) s)"

text \<open>The number of inertia continuations waiting for a display refresh.\<close>

definition inertiaPending :: "canvas \<Rightarrow> nat" where
  "inertiaPending s = length (filter (\<lambda>p. snd p = AnimateMomentum) (pending s))"

text \<open>
  The invariant of a run under one document: the offset, and the transform last written
  to the content element (when one was written), lie within the bounds.
\<close>

definition rendered_ok :: "bounds \<Rightarrow> canvas \<Rightarrow> bool" where
  "rendered_ok b s \<longleftrightarrow>
     inBounds b (offset s) \<and> (case transform s of None \<Rightarrow> True | Some t \<Rightarrow> inBounds b t)"

text \<open>\<open>n\<close> display refreshes in a row, with no other event in between.\<close>

abbreviation frames :: "layout \<Rightarrow> dom \<Rightarrow> nat \<Rightarrow> canvas \<Rightarrow> canvas" where
  "frames L D n s \<equiv> run L (replicate n (D, Frame)) s"

text \<open>The test that makes the inertia step request another step.\<close>

definition big :: "vec \<Rightarrow> bool" where
  "big v \<longleftrightarrow> \<bar>xc v\<bar> > 0.5 \<or> \<bar>yc v\<bar> > 0.5"

text \<open>A velocity after \<open>n\<close> multiplications by the friction factor.\<close>

definition decay :: "nat \<Rightarrow> vec \<Rightarrow> vec" where
  "decay n v = \<lparr>xc = xc v * 0.9 ^ n, yc = yc v * 0.9 ^ n\<rparr>"

text \<open>
  The bound of the specification, \<open>ceil(log(0.5/|v|)/log(0.9))\<close>, as a natural number:
  a negative ceiling counts as 0, and so does the axis with no velocity, where the
  quotient is not defined.
\<close>

definition stepBound :: "real \<Rightarrow> nat" where
  "stepBound v = (if v = 0 then 0 else nat \<lceil>ln (0.5 / \<bar>v\<bar>) / ln 0.9\<rceil>)"

text \<open>The geometric sum \<open>1 + 0.9 + \<dots> + 0.9 ^ (n - 1)\<close>.\<close>

definition geo :: "nat \<Rightarrow> real" where
  "geo n = (1 - 0.9 ^ n) / (1 - 0.9)"

text \<open>
  The inertia step with the multiplication by the friction factor left open: \<open>friction v\<close>
  stands for the double that \<open>v * 0.9\<close> evaluates to. Everything else is as in
  \<open>animateMomentum\<close>, which is the instance \<open>exactFriction\<close>.
\<close>

definition animateMomentumWith :: "(real \<Rightarrow> real) \<Rightarrow> layout \<Rightarrow> dom \<Rightarrow> canvas \<Rightarrow> canvas" where
  "animateMomentumWith friction L D s =
    (let s1 = s\<lparr>offset :=
                 \<lparr>xc = max (minX L D) (min 0 (xc (offset s) + xc (velocity s))),
                  yc = max (minY L D) (min 0 (yc (offset s) + yc (velocity s)))\<rparr>\<rparr>;
         s2 = s1\<lparr>velocity := \<lparr>xc = friction (xc (velocity s1)), yc = friction (yc (velocity s1))\<rparr>\<rparr>;
         s3 = updateTransform D s2
     in if \<bar>xc (velocity s3)\<bar> > 0.5 \<or> \<bar>yc (velocity s3)\<bar> > 0.5
        then (let (h, s4) = requestAnimationFrame AnimateMomentum s3
              in s4\<lparr>animationFrame := Some h\<rparr>)
        else s3)"

definition runCallbackWith :: "(real \<Rightarrow> real) \<Rightarrow> layout \<Rightarrow> dom \<Rightarrow> callback \<Rightarrow> canvas \<Rightarrow> canvas" where
  "runCallbackWith friction L D cb s =
    (case cb of
       AnimateMomentum \<Rightarrow> animateMomentumWith friction L D s
     | UpdateTransform \<Rightarrow> updateTransform D s)"

definition runFrameWith :: "(real \<Rightarrow> real) \<Rightarrow> layout \<Rightarrow> dom \<Rightarrow> canvas \<Rightarrow> canvas" where
  "runFrameWith friction L D s =
     fold (\<lambda>p. runCallbackWith friction L D (snd p)) (pending s) (s\<lparr>pending := []\<rparr>)"

primrec framesWith :: "(real \<Rightarrow> real) \<Rightarrow> layout \<Rightarrow> dom \<Rightarrow> nat \<Rightarrow> canvas \<Rightarrow> canvas" where
  "framesWith friction L D 0 s = s"
| "framesWith friction L D (Suc n) s = runFrameWith friction L D (framesWith friction L D n s)"

text \<open>The velocity after \<open>n\<close> applications of the friction.\<close>

definition iterated :: "(real \<Rightarrow> real) \<Rightarrow> nat \<Rightarrow> vec \<Rightarrow> vec" where
  "iterated friction n v = \<lparr>xc = (friction ^^ n) (xc v), yc = (friction ^^ n) (yc v)\<rparr>"

text \<open>The multiplication over the reals, as \<open>animateMomentum\<close> has it.\<close>

definition exactFriction :: "real \<Rightarrow> real" where
  "exactFriction v = v * 0.9"

text \<open>A multiplication that errs upwards by one part in \<open>2 ^ 52\<close>.\<close>

definition roundedUp :: "real \<Rightarrow> real" where
  "roundedUp v = v * 0.9 * (1 + 1 / 2 ^ 52)"

text \<open>
  An axis is pinned when the offset is at one end of its range and the velocity points
  out of the range (or is zero).
\<close>

definition pinnedX :: "layout \<Rightarrow> dom \<Rightarrow> canvas \<Rightarrow> bool" where
  "pinnedX L D s \<longleftrightarrow>
     xc (offset s) = 0 \<and> 0 \<le> xc (velocity s) \<or> xc (offset s) = minX L D \<and> xc (velocity s) \<le> 0"

definition pinnedY :: "layout \<Rightarrow> dom \<Rightarrow> canvas \<Rightarrow> bool" where
  "pinnedY L D s \<longleftrightarrow>
     yc (offset s) = 0 \<and> 0 \<le> yc (velocity s) \<or> yc (offset s) = minY L D \<and> yc (velocity s) \<le> 0"

text \<open>At a given offset with no velocity.\<close>

definition resting :: "vec \<Rightarrow> canvas \<Rightarrow> bool" where
  "resting p t \<longleftrightarrow> offset t = p \<and> velocity t = \<lparr>xc = 0, yc = 0\<rparr>"

text \<open>
  A drag given by the positions of its move events: every move is to the left of (or at)
  the position before it, and \<open>endX\<close> is the x coordinate the pointer ends at.
\<close>

fun leftward :: "real \<Rightarrow> (real \<times> real) list \<Rightarrow> bool" where
  "leftward x [] = True"
| "leftward x (p # ps) = (fst p \<le> x \<and> leftward (fst p) ps)"

fun endX :: "real \<Rightarrow> (real \<times> real) list \<Rightarrow> real" where
  "endX x [] = x"
| "endX x (p # ps) = endX (fst p) ps"

text \<open>The events of a whole gesture: the press, the moves, the release.\<close>

definition moves :: "dom \<Rightarrow> (real \<times> real) list \<Rightarrow> (dom \<times> event) list" where
  "moves D ps = map (\<lambda>p. (D, PointerMove (fst p) (snd p))) ps"

definition gesture :: "dom \<Rightarrow> nat \<Rightarrow> real \<times> real \<Rightarrow> (real \<times> real) list \<Rightarrow> (dom \<times> event) list" where
  "gesture D pointerId p0 ps =
     (D, PointerDown pointerId (fst p0) (snd p0)) # moves D ps @ [(D, PointerUp pointerId)]"

subsection \<open>Concrete scenarios\<close>

text \<open>The layout of the card list of the source, and a window of 500 by 300.\<close>

definition cardsLayout :: layout where
  "cardsLayout = \<lparr>totalWidth = 2212, tallestCard = 400\<rparr>"

definition smallWindow :: dom where
  "smallWindow = \<lparr>contentMounted = True, clientWidth = Some 500, innerWidth = 500, innerHeight = 300\<rparr>"

text \<open>
  A drag 1010 to the left and 10 back to the right, then the release: the inertia
  starts with velocity (10, 0) at offset (-1000, 0).
\<close>

definition coasting :: canvas where
  "coasting =
     run cardsLayout
       [(smallWindow, PointerDown 1 2000 100),
        (smallWindow, PointerMove 990 100),
        (smallWindow, PointerMove 1000 100),
        (smallWindow, PointerUp 1)] Canvas"

text \<open>A drag of a quarter of a unit up and to the left, then the release.\<close>

definition nudged :: canvas where
  "nudged =
     run cardsLayout
       [(smallWindow, PointerDown 1 100 100),
        (smallWindow, PointerMove (399 / 4) (399 / 4)),
        (smallWindow, PointerUp 1)] Canvas"

text \<open>
  A drag of 5/9 to the right, then the release: the velocity times 0.9 is the threshold 0.5.
\<close>

definition threshold :: canvas where
  "threshold =
     run cardsLayout
       [(smallWindow, PointerDown 1 100 100),
        (smallWindow, PointerMove (905 / 9) 100),
        (smallWindow, PointerUp 1)] Canvas"

text \<open>A drag to the right and up from the initial state, then the release.\<close>

definition cornered :: canvas where
  "cornered =
     run cardsLayout
       [(smallWindow, PointerDown 1 100 100),
        (smallWindow, PointerMove 110 90),
        (smallWindow, PointerUp 1)] Canvas"

text \<open>A window of 1000 by 300.\<close>

definition wideWindow :: dom where
  "wideWindow = \<lparr>contentMounted = True, clientWidth = Some 1000, innerWidth = 1000, innerHeight = 300\<rparr>"

text \<open>A drag 10 to the left whose last move event reports no displacement; not yet released.\<close>

definition paused :: canvas where
  "paused = run cardsLayout
       [(smallWindow, PointerDown 1 100 100),
        (smallWindow, PointerMove 90 100),
        (smallWindow, PointerMove 90 100)] Canvas"

text \<open>
  A drag to the left end in the small window, held still and released, and the display
  refresh that follows; the window is then widened and the pointer pressed again.
\<close>

definition resized :: canvas where
  "resized = run cardsLayout
       [(smallWindow, PointerDown 1 2000 100),
        (smallWindow, PointerMove 0 100),
        (smallWindow, PointerMove 0 100),
        (smallWindow, PointerUp 1),
        (smallWindow, Frame),
        (wideWindow, PointerDown 1 500 100)] Canvas"

text \<open>
  A drag to offset -1000, held still and released, and the display refresh that follows;
  then a gesture that moves 10 to the right and 10 back to the left: the pointer is
  released where it was pressed.
\<close>

definition wiggled :: canvas where
  "wiggled = run cardsLayout
       [(smallWindow, PointerDown 1 2000 100),
        (smallWindow, PointerMove 1000 100),
        (smallWindow, PointerMove 1000 100),
        (smallWindow, PointerUp 1),
        (smallWindow, Frame),
        (smallWindow, PointerDown 1 500 100),
        (smallWindow, PointerMove 510 100),
        (smallWindow, PointerMove 500 100),
        (smallWindow, PointerUp 1)] Canvas"

text \<open>
  A drag 10 to the left, its release and one display refresh; in \<open>doubled\<close> the pointer
  then leaves the container.
\<close>

definition released :: canvas where
  "released = run cardsLayout
       [(smallWindow, PointerDown 1 100 100),
        (smallWindow, PointerMove 90 100),
        (smallWindow, PointerUp 1),
        (smallWindow, Frame)] Canvas"

definition doubled :: canvas where
  "doubled = dispatch cardsLayout smallWindow (PointerLeave 1) released"

text \<open>
  A drag to the left end in the small window; the window is widened before the display
  refresh that renders the move.
\<close>

definition stale :: canvas where
  "stale = run cardsLayout
       [(smallWindow, PointerDown 1 2000 100),
        (smallWindow, PointerMove 0 100),
        (wideWindow, Frame)] Canvas"

text \<open>Content 2000 wide with cards at most 150 tall, in a window of 500 by 500.\<close>

definition scenarioLayout :: layout where
  "scenarioLayout = \<lparr>totalWidth = 2000, tallestCard = 150\<rparr>"

definition squareWindow :: dom where
  "squareWindow = \<lparr>contentMounted = True, clientWidth = Some 500, innerWidth = 500, innerHeight = 500\<rparr>"

section \<open>Properties\<close>

lemmas handler_defs =
  onPointerDown_def onPointerMove_def onPointerUp_def animateMomentum_def updateTransform_def
  requestAnimationFrame_def cancelAnimationFrame_def setPointerCapture_def
  releasePointerCapture_def runFrame_def inertiaPending_def Let_def
  minX_def minY_def containerWidth_def

lemma layoutOf_steps: "layoutOf steps = Some cardsLayout"
  by (simp add: layoutOf_def steps_def cardWidth_def gap_def paddingX_def cardsLayout_def)

lemma minX_le_0: "minX L D \<le> 0"
  by (simp add: minX_def)

lemma minY_le_0: "minY L D \<le> 0"
  by (simp add: minY_def)

lemma offset_animateMomentum:
  "offset (animateMomentum L D s) =
     clamp (boundsOf L D)
       \<lparr>xc = xc (offset s) + xc (velocity s), yc = yc (offset s) + yc (velocity s)\<rparr>"
  by (simp add: animateMomentum_def Let_def updateTransform_def requestAnimationFrame_def
      clamp_def boundsOf_def)

lemma offset_onPointerMove:
  "isDragging s \<Longrightarrow>
   offset (onPointerMove L D clientX clientY s) =
     clamp (boundsOf L D)
       \<lparr>xc = xc (offset s) + (clientX - xc (lastPos s)),
        yc = yc (offset s) + (clientY - yc (lastPos s))\<rparr>"
  by (simp add: onPointerMove_def Let_def requestAnimationFrame_def clamp_def boundsOf_def)


subsection \<open>The offset stays within the bounds\<close>

lemma offset_updateTransform [simp]: "offset (updateTransform D s) = offset s"
  by (simp add: updateTransform_def)

lemma inBounds_animateMomentum: "inBounds (boundsOf L D) (offset (animateMomentum L D s))"
  by (simp add: offset_animateMomentum clamp_def inBounds_def boundsOf_def minX_def minY_def)

lemma inBounds_onPointerMove:
  "isDragging s \<Longrightarrow> inBounds (boundsOf L D) (offset (onPointerMove L D cx cy s))"
  by (simp add: offset_onPointerMove clamp_def inBounds_def boundsOf_def minX_def minY_def)

lemma offset_onPointerMove_idle: "\<not> isDragging s \<Longrightarrow> onPointerMove L D cx cy s = s"
  by (simp add: onPointerMove_def)

lemma offset_onPointerDown [simp]: "offset (onPointerDown pid cx cy s) = offset s"
  by (simp add: onPointerDown_def Let_def setPointerCapture_def cancelAnimationFrame_def
      split: option.splits)

lemma offset_onPointerUp [simp]: "offset (onPointerUp pid s) = offset s"
  by (simp add: onPointerUp_def Let_def releasePointerCapture_def requestAnimationFrame_def)

lemma offset_fold_callbacks:
  "offset (fold (\<lambda>p. runCallback L D (snd p)) cbs s) = offset s
   \<or> inBounds (boundsOf L D) (offset (fold (\<lambda>p. runCallback L D (snd p)) cbs s))"
proof (induction cbs arbitrary: s rule: rev_induct)
  case Nil
  show ?case by simp
next
  case (snoc p cbs)
  show ?case
  proof (cases "snd p")
    case AnimateMomentum
    then show ?thesis by (simp add: runCallback_def inBounds_animateMomentum)
  next
    case UpdateTransform
    then show ?thesis using snoc [of s] by (simp add: runCallback_def)
  qed
qed

lemma offset_runFrame:
  "offset (runFrame L D s) = offset s \<or> inBounds (boundsOf L D) (offset (runFrame L D s))"
  using offset_fold_callbacks [of L D "pending s" "s\<lparr>pending := []\<rparr>"]
  by (simp add: runFrame_def)

lemma offset_dispatch:
  "offset (dispatch L D e s) = offset s \<or> inBounds (boundsOf L D) (offset (dispatch L D e s))"
proof (cases e)
  case (PointerMove cx cy)
  then show ?thesis
    by (cases "isDragging s") (simp_all add: inBounds_onPointerMove offset_onPointerMove_idle)
next
  case Frame
  then show ?thesis by (simp add: offset_runFrame)
qed simp_all

lemma rendered_ok_updateTransform:
  "rendered_ok b s \<Longrightarrow> rendered_ok b (updateTransform D s)"
  by (simp add: rendered_ok_def updateTransform_def)

lemma rendered_ok_animateMomentum:
  "rendered_ok (boundsOf L D) s \<Longrightarrow> rendered_ok (boundsOf L D) (animateMomentum L D s)"
  unfolding rendered_ok_def
  by (simp add: inBounds_animateMomentum)
     (simp add: animateMomentum_def Let_def updateTransform_def requestAnimationFrame_def
        inBounds_def boundsOf_def minX_def minY_def split: option.splits)

lemma rendered_ok_fold:
  "rendered_ok (boundsOf L D) s \<Longrightarrow>
   rendered_ok (boundsOf L D) (fold (\<lambda>p. runCallback L D (snd p)) cbs s)"
proof (induction cbs arbitrary: s)
  case Nil
  then show ?case by simp
next
  case (Cons p cbs)
  have "rendered_ok (boundsOf L D) (runCallback L D (snd p) s)"
    using Cons.prems
    by (cases "snd p")
       (simp_all add: runCallback_def rendered_ok_updateTransform rendered_ok_animateMomentum)
  then show ?case using Cons.IH by simp
qed

lemma rendered_ok_dispatch:
  assumes "rendered_ok (boundsOf L D) s"
  shows "rendered_ok (boundsOf L D) (dispatch L D e s)"
proof (cases e)
  case (PointerDown pid cx cy)
  then show ?thesis using assms
    by (simp add: rendered_ok_def onPointerDown_def Let_def setPointerCapture_def
        cancelAnimationFrame_def split: option.splits)
next
  case (PointerMove cx cy)
  show ?thesis
  proof (cases "isDragging s")
    case True
    then show ?thesis using assms PointerMove inBounds_onPointerMove [of s L D cx cy]
      by (simp add: rendered_ok_def)
         (simp add: onPointerMove_def Let_def requestAnimationFrame_def)
  next
    case False
    then show ?thesis using assms PointerMove by (simp add: offset_onPointerMove_idle)
  qed
next
  case (PointerUp pid)
  then show ?thesis using assms
    by (simp add: rendered_ok_def onPointerUp_def Let_def releasePointerCapture_def
        requestAnimationFrame_def)
next
  case (PointerLeave pid)
  then show ?thesis using assms
    by (simp add: rendered_ok_def onPointerUp_def Let_def releasePointerCapture_def
        requestAnimationFrame_def)
next
  case Frame
  have "rendered_ok (boundsOf L D) (s\<lparr>pending := []\<rparr>)"
    using assms by (simp add: rendered_ok_def)
  then show ?thesis using Frame by (simp add: runFrame_def rendered_ok_fold)
qed

lemma rendered_ok_run:
  "rendered_ok (boundsOf L D) s \<Longrightarrow> rendered_ok (boundsOf L D) (run L (map (Pair D) es) s)"
  by (induction es arbitrary: s) (simp_all add: rendered_ok_dispatch)

lemma rendered_ok_Canvas: "rendered_ok (boundsOf L D) Canvas"
  by (simp add: rendered_ok_def Canvas_def inBounds_def boundsOf_def minX_le_0 minY_le_0)

text \<open>
  Claim C1, amended. Every write of the offset, by the inertia step and by a move during a
  drag, leaves it within the bounds computed from the document at that write: between the
  minimum and 0 on each axis. So along every run from the initial state, with the document
  read afresh at each event, an event either leaves the offset as it was or leaves it
  within the bounds of the document at that event. While the document does not change, the
  offset and the transform last written to the content element are within its bounds after
  every event.
\<close>

theorem bounds_respected:
  "inBounds (boundsOf L D) (offset (animateMomentum L D s))
   \<and> (onPointerMove L D clientX clientY s = s
      \<or> inBounds (boundsOf L D) (offset (onPointerMove L D clientX clientY s)))
   \<and> (offset (dispatch L D e (run L des Canvas)) = offset (run L des Canvas)
      \<or> inBounds (boundsOf L D) (offset (dispatch L D e (run L des Canvas))))
   \<and> inBounds (boundsOf L D) (offset (run L (map (Pair D) es) Canvas))
   \<and> (case transform (run L (map (Pair D) es) Canvas) of
        None \<Rightarrow> True
      | Some t \<Rightarrow> inBounds (boundsOf L D) t)"
proof -
  have "onPointerMove L D clientX clientY s = s
      \<or> inBounds (boundsOf L D) (offset (onPointerMove L D clientX clientY s))"
    by (cases "isDragging s") (simp_all add: inBounds_onPointerMove offset_onPointerMove_idle)
  then show ?thesis
    using offset_dispatch [of L D e "run L des Canvas"]
      rendered_ok_run [OF rendered_ok_Canvas, of L D es]
      inBounds_animateMomentum [of L D s]
    by (simp add: rendered_ok_def)
qed

text \<open>
  Without the proviso the claim fails: the offset is not written when the window changes,
  and \<open>updateTransform\<close> renders it as it is. After a drag to -1712 in the small window, the
  display refresh in the widened window renders -1712, below the minimum -1212.
\<close>

theorem bounds_respected_counterexample:
  "offset stale = \<lparr>xc = - 1712, yc = 0\<rparr>
   \<and> transform stale = Some \<lparr>xc = - 1712, yc = 0\<rparr>
   \<and> minX cardsLayout wideWindow = - 1212
   \<and> \<not> inBounds (boundsOf cardsLayout wideWindow) (offset stale)"
  by (simp add: stale_def Canvas_def handler_defs runCallback_def cardsLayout_def
      smallWindow_def wideWindow_def inBounds_def boundsOf_def)

subsection \<open>The inertia run\<close>

lemma run_append: "run L (des @ des') s = run L des' (run L des s)"
  by (induction des arbitrary: s) simp_all

lemma frames_Suc: "frames L D (Suc n) s = runFrame L D (frames L D n s)"
proof -
  have "replicate (Suc n) (D, Frame) = replicate n (D, Frame) @ [(D, Frame)]"
    by (simp add: replicate_append_same)
  then show ?thesis by (simp only: run_append) simp
qed

lemma updateTransform_fields [simp]:
  "velocity (updateTransform D s) = velocity s"
  "pending (updateTransform D s) = pending s"
  "nextHandle (updateTransform D s) = nextHandle s"
  "isDragging (updateTransform D s) = isDragging s"
  by (simp_all add: updateTransform_def)

lemma velocity_animateMomentum:
  "velocity (animateMomentum L D s) = \<lparr>xc = xc (velocity s) * 0.9, yc = yc (velocity s) * 0.9\<rparr>"
  by (simp add: animateMomentum_def Let_def updateTransform_def requestAnimationFrame_def)

lemma pending_animateMomentum:
  "pending (animateMomentum L D s) =
     pending s @ (if \<bar>xc (velocity s) * 0.9\<bar> > 0.5 \<or> \<bar>yc (velocity s) * 0.9\<bar> > 0.5
                  then [(nextHandle s, AnimateMomentum)] else [])"
  by (simp add: animateMomentum_def Let_def updateTransform_def requestAnimationFrame_def)

lemma runCallback_simps [simp]:
  "runCallback L D AnimateMomentum s = animateMomentum L D s"
  "runCallback L D UpdateTransform s = updateTransform D s"
  by (simp_all add: runCallback_def)

lemma fold_updates_only:
  "\<forall>p \<in> set cbs. snd p = UpdateTransform \<Longrightarrow>
   offset (fold (\<lambda>p. runCallback L D (snd p)) cbs s) = offset s
   \<and> velocity (fold (\<lambda>p. runCallback L D (snd p)) cbs s) = velocity s
   \<and> pending (fold (\<lambda>p. runCallback L D (snd p)) cbs s) = pending s"
  by (induction cbs arbitrary: s) simp_all

lemma fold_one_momentum:
  "length (filter (\<lambda>p. snd p = AnimateMomentum) cbs) = 1 \<Longrightarrow>
   offset (fold (\<lambda>p. runCallback L D (snd p)) cbs s) = offset (animateMomentum L D s)
   \<and> velocity (fold (\<lambda>p. runCallback L D (snd p)) cbs s) = velocity (animateMomentum L D s)
   \<and> pending (fold (\<lambda>p. runCallback L D (snd p)) cbs s) = pending (animateMomentum L D s)"
proof (induction cbs arbitrary: s)
  case Nil
  then show ?case by simp
next
  case (Cons p cbs)
  show ?case
  proof (cases "snd p")
    case AnimateMomentum
    with Cons.prems have "\<forall>q \<in> set cbs. snd q = UpdateTransform"
      by (auto simp: filter_empty_conv intro: callback.exhaust)
    from fold_updates_only [OF this, of L D "animateMomentum L D s"] AnimateMomentum
    show ?thesis by simp
  next
    case UpdateTransform
    with Cons.prems have "length (filter (\<lambda>p. snd p = AnimateMomentum) cbs) = 1" by simp
    from Cons.IH [OF this, of "updateTransform D s"] UpdateTransform
    show ?thesis
      by (simp add: offset_animateMomentum velocity_animateMomentum pending_animateMomentum)
  qed
qed

lemma runFrame_single:
  assumes "inertiaPending s = 1"
  shows "offset (runFrame L D s) =
           clamp (boundsOf L D)
             \<lparr>xc = xc (offset s) + xc (velocity s), yc = yc (offset s) + yc (velocity s)\<rparr>"
    and "velocity (runFrame L D s) = \<lparr>xc = xc (velocity s) * 0.9, yc = yc (velocity s) * 0.9\<rparr>"
    and "inertiaPending (runFrame L D s) =
           (if \<bar>xc (velocity s) * 0.9\<bar> > 0.5 \<or> \<bar>yc (velocity s) * 0.9\<bar> > 0.5 then 1 else 0)"
  using fold_one_momentum [of "pending s" L D "s\<lparr>pending := []\<rparr>"] assms
  by (simp_all add: runFrame_def inertiaPending_def offset_animateMomentum
      velocity_animateMomentum pending_animateMomentum)

lemma frames_decay:
  assumes one: "inertiaPending s = 1"
    and alive: "\<forall>j. 1 \<le> j \<and> j < n \<longrightarrow> big (decay j (velocity s))"
  shows "velocity (frames L D n s) = decay n (velocity s)
     \<and> (1 \<le> n \<longrightarrow>
          inertiaPending (frames L D n s) = (if big (decay n (velocity s)) then 1 else 0))"
  using alive
proof (induction n)
  case 0
  show ?case by (simp add: decay_def)
next
  case (Suc n)
  then have IH: "velocity (frames L D n s) = decay n (velocity s)"
    and IH': "1 \<le> n \<longrightarrow>
          inertiaPending (frames L D n s) = (if big (decay n (velocity s)) then 1 else 0)"
    by simp_all
  have "inertiaPending (frames L D n s) = 1"
  proof (cases "n = 0")
    case True
    then show ?thesis using one by simp
  next
    case False
    then have "big (decay n (velocity s))" using Suc.prems by simp
    then show ?thesis using IH' False by simp
  qed
  from runFrame_single(2,3) [OF this, of L D] IH
  show ?case
    by (simp only: frames_Suc) (simp add: decay_def big_def mult_ac)
qed

lemma decayed_small_iff: "\<bar>v * 0.9 ^ j\<bar> \<le> 0.5 \<longleftrightarrow> stepBound v \<le> j"
proof (cases "v = 0")
  case True
  then show ?thesis by (simp add: stepBound_def)
next
  case False
  then have pos: "0 < \<bar>v\<bar>" by simp
  have neg: "ln (0.9::real) < 0" by simp
  have "\<bar>v * 0.9 ^ j\<bar> \<le> 0.5 \<longleftrightarrow> (0.9::real) ^ j \<le> 0.5 / \<bar>v\<bar>"
    using pos by (simp add: abs_mult pos_le_divide_eq mult_ac)
  also have "\<dots> \<longleftrightarrow> ln ((0.9::real) ^ j) \<le> ln (0.5 / \<bar>v\<bar>)"
    using pos by (subst ln_le_cancel_iff) simp_all
  also have "\<dots> \<longleftrightarrow> real j * ln 0.9 \<le> ln (0.5 / \<bar>v\<bar>)"
    by (simp add: ln_realpow)
  also have "\<dots> \<longleftrightarrow> ln (0.5 / \<bar>v\<bar>) / ln 0.9 \<le> real j"
    using neg by (simp add: neg_divide_le_eq)
  also have "\<dots> \<longleftrightarrow> \<lceil>ln (0.5 / \<bar>v\<bar>) / ln 0.9\<rceil> \<le> int j"
    by (simp add: ceiling_le_iff)
  also have "\<dots> \<longleftrightarrow> stepBound v \<le> j"
    using False by (simp add: stepBound_def nat_le_iff)
  finally show ?thesis .
qed

lemma big_decay_iff: "big (decay j v) \<longleftrightarrow> j < max (stepBound (xc v)) (stepBound (yc v))"
  using decayed_small_iff [of "xc v" j] decayed_small_iff [of "yc v" j]
  by (auto simp: big_def decay_def)

lemma geo_Suc: "geo (Suc n) = geo n + 0.9 ^ n"
  by (simp add: geo_def field_simps)

lemma clamp_inBounds: "inBounds b p \<Longrightarrow> clamp b p = p"
  by (simp add: clamp_def inBounds_def max_def min_def)

lemma frames_unclamped:
  assumes one: "inertiaPending s = 1"
    and alive: "\<forall>j. 1 \<le> j \<and> j < n \<longrightarrow> big (decay j (velocity s))"
    and free: "\<forall>j\<le>n. inBounds (boundsOf L D)
                 \<lparr>xc = xc (offset s) + geo j * xc (velocity s),
                  yc = yc (offset s) + geo j * yc (velocity s)\<rparr>"
  shows "offset (frames L D n s) =
           \<lparr>xc = xc (offset s) + geo n * xc (velocity s),
            yc = yc (offset s) + geo n * yc (velocity s)\<rparr>"
  using alive free
proof (induction n)
  case 0
  show ?case by (simp add: geo_def)
next
  case (Suc n)
  then have IH: "offset (frames L D n s) =
           \<lparr>xc = xc (offset s) + geo n * xc (velocity s),
            yc = yc (offset s) + geo n * yc (velocity s)\<rparr>"
    by simp
  have al: "\<forall>j. 1 \<le> j \<and> j < n \<longrightarrow> big (decay j (velocity s))"
    using Suc.prems(1) by simp
  have vel: "velocity (frames L D n s) = decay n (velocity s)"
    using frames_decay [OF one al, of L D] by simp
  have pend: "inertiaPending (frames L D n s) = 1"
  proof (cases "n = 0")
    case True
    then show ?thesis using one by simp
  next
    case False
    then have "big (decay n (velocity s))" using Suc.prems(1) by simp
    then show ?thesis using frames_decay [OF one al, of L D] False by simp
  qed
  have next_in: "inBounds (boundsOf L D)
                 \<lparr>xc = xc (offset s) + geo (Suc n) * xc (velocity s),
                  yc = yc (offset s) + geo (Suc n) * yc (velocity s)\<rparr>"
    using Suc.prems(2) by blast
  have "offset (frames L D (Suc n) s) =
          clamp (boundsOf L D)
            \<lparr>xc = xc (offset s) + geo (Suc n) * xc (velocity s),
             yc = yc (offset s) + geo (Suc n) * yc (velocity s)\<rparr>"
    using runFrame_single(1) [OF pend, of L D]
    by (simp only: frames_Suc) (simp add: IH vel decay_def geo_Suc algebra_simps)
  then show ?case using clamp_inBounds [OF next_in] by simp
qed

lemma coasting_eq:
  "coasting =
    \<lparr>offset = \<lparr>xc = - 1000, yc = 0\<rparr>,
     isDragging = False,
     lastPos = \<lparr>xc = 1000, yc = 100\<rparr>,
     velocity = \<lparr>xc = 10, yc = 0\<rparr>,
     animationFrame = Some 3,
     transform = None,
     capture = None,
     pending = [(1, UpdateTransform), (2, UpdateTransform), (3, AnimateMomentum)],
     nextHandle = 4\<rparr>"
  by (simp add: coasting_def Canvas_def handler_defs cardsLayout_def smallWindow_def)

lemma nudged_eq:
  "nudged =
    \<lparr>offset = \<lparr>xc = - (1 / 4), yc = - (1 / 4)\<rparr>,
     isDragging = False,
     lastPos = \<lparr>xc = 399 / 4, yc = 399 / 4\<rparr>,
     velocity = \<lparr>xc = - (1 / 4), yc = - (1 / 4)\<rparr>,
     animationFrame = Some 2,
     transform = None,
     capture = None,
     pending = [(1, UpdateTransform), (2, AnimateMomentum)],
     nextHandle = 3\<rparr>"
  by (simp add: nudged_def Canvas_def handler_defs cardsLayout_def smallWindow_def)

lemma stepBound_eqI:
  assumes "\<bar>v * 0.9 ^ Suc n\<bar> \<le> 0.5" and "\<not> \<bar>v * 0.9 ^ n\<bar> \<le> 0.5"
  shows "stepBound v = Suc n"
  using assms decayed_small_iff [of v "Suc n"] decayed_small_iff [of v n] by simp

lemma stepBound_10: "stepBound 10 = 29"
proof -
  have "stepBound 10 = Suc 28"
    by (rule stepBound_eqI) (simp_all add: power_divide)
  then show ?thesis by simp
qed

lemma stepBound_0: "stepBound 0 = 0"
  by (simp add: stepBound_def)

lemma animateMomentumWith_exact: "animateMomentumWith exactFriction L D s = animateMomentum L D s"
  by (simp add: animateMomentumWith_def animateMomentum_def exactFriction_def)

lemma runFrameWith_exact: "runFrameWith exactFriction L D s = runFrame L D s"
proof -
  have "runCallbackWith exactFriction L D = runCallback L D"
    by (intro ext)
       (simp add: runCallbackWith_def runCallback_def animateMomentumWith_exact
          split: callback.splits)
  then show ?thesis by (simp add: runFrameWith_def runFrame_def)
qed

lemma framesWith_exact: "framesWith exactFriction L D n s = frames L D n s"
proof (induction n)
  case 0
  show ?case by simp
next
  case (Suc n)
  show ?case by (simp only: framesWith.simps frames_Suc runFrameWith_exact Suc)
qed

lemma runCallbackWith_simps [simp]:
  "runCallbackWith friction L D AnimateMomentum s = animateMomentumWith friction L D s"
  "runCallbackWith friction L D UpdateTransform s = updateTransform D s"
  by (simp_all add: runCallbackWith_def)

lemma velocity_animateMomentumWith:
  "velocity (animateMomentumWith friction L D s) =
     \<lparr>xc = friction (xc (velocity s)), yc = friction (yc (velocity s))\<rparr>"
  by (simp add: animateMomentumWith_def Let_def updateTransform_def requestAnimationFrame_def)

lemma pending_animateMomentumWith:
  "pending (animateMomentumWith friction L D s) =
     pending s @ (if \<bar>friction (xc (velocity s))\<bar> > 0.5 \<or> \<bar>friction (yc (velocity s))\<bar> > 0.5
                  then [(nextHandle s, AnimateMomentum)] else [])"
  by (simp add: animateMomentumWith_def Let_def updateTransform_def requestAnimationFrame_def)

lemma foldWith_updates_only:
  "\<forall>p \<in> set cbs. snd p = UpdateTransform \<Longrightarrow>
   velocity (fold (\<lambda>p. runCallbackWith friction L D (snd p)) cbs s) = velocity s
   \<and> pending (fold (\<lambda>p. runCallbackWith friction L D (snd p)) cbs s) = pending s"
  by (induction cbs arbitrary: s) simp_all

lemma foldWith_one_momentum:
  "length (filter (\<lambda>p. snd p = AnimateMomentum) cbs) = 1 \<Longrightarrow>
   velocity (fold (\<lambda>p. runCallbackWith friction L D (snd p)) cbs s)
     = velocity (animateMomentumWith friction L D s)
   \<and> pending (fold (\<lambda>p. runCallbackWith friction L D (snd p)) cbs s)
     = pending (animateMomentumWith friction L D s)"
proof (induction cbs arbitrary: s)
  case Nil
  then show ?case by simp
next
  case (Cons p cbs)
  show ?case
  proof (cases "snd p")
    case AnimateMomentum
    with Cons.prems have "\<forall>q \<in> set cbs. snd q = UpdateTransform"
      by (auto simp: filter_empty_conv intro: callback.exhaust)
    from foldWith_updates_only [OF this, of friction L D "animateMomentumWith friction L D s"]
      AnimateMomentum
    show ?thesis by simp
  next
    case UpdateTransform
    with Cons.prems have "length (filter (\<lambda>p. snd p = AnimateMomentum) cbs) = 1" by simp
    from Cons.IH [OF this, of "updateTransform D s"] UpdateTransform
    show ?thesis
      by (simp add: velocity_animateMomentumWith pending_animateMomentumWith)
  qed
qed

lemma runFrameWith_single:
  assumes "inertiaPending s = 1"
  shows "velocity (runFrameWith friction L D s) =
           \<lparr>xc = friction (xc (velocity s)), yc = friction (yc (velocity s))\<rparr>"
    and "inertiaPending (runFrameWith friction L D s) =
           (if \<bar>friction (xc (velocity s))\<bar> > 0.5 \<or> \<bar>friction (yc (velocity s))\<bar> > 0.5
            then 1 else 0)"
  using foldWith_one_momentum [of "pending s" friction L D "s\<lparr>pending := []\<rparr>"] assms
  by (simp_all add: runFrameWith_def inertiaPending_def velocity_animateMomentumWith
      pending_animateMomentumWith)

lemma framesWith_chain:
  assumes one: "inertiaPending s = 1"
    and alive: "\<forall>j. 1 \<le> j \<and> j < n \<longrightarrow> big (iterated friction j (velocity s))"
  shows "velocity (framesWith friction L D n s) = iterated friction n (velocity s)
     \<and> (1 \<le> n \<longrightarrow>
          inertiaPending (framesWith friction L D n s)
            = (if big (iterated friction n (velocity s)) then 1 else 0))"
  using alive
proof (induction n)
  case 0
  show ?case by (simp add: iterated_def)
next
  case (Suc n)
  then have IH: "velocity (framesWith friction L D n s) = iterated friction n (velocity s)"
    and IH': "1 \<le> n \<longrightarrow>
          inertiaPending (framesWith friction L D n s)
            = (if big (iterated friction n (velocity s)) then 1 else 0)"
    by simp_all
  have "inertiaPending (framesWith friction L D n s) = 1"
  proof (cases "n = 0")
    case True
    then show ?thesis using one by simp
  next
    case False
    then have "big (iterated friction n (velocity s))" using Suc.prems by simp
    then show ?thesis using IH' False by simp
  qed
  from runFrameWith_single [OF this, of friction L D] IH
  show ?case by (simp add: iterated_def big_def)
qed

lemma rounded_bound:
  fixes q \<eta> :: real
  assumes r: "\<forall>v. \<bar>friction v\<bar> \<le> q * \<bar>v\<bar> + \<eta>"
    and q: "0 \<le> q" "q \<le> 19 / 20" and e: "0 \<le> \<eta>"
  shows "\<bar>(friction ^^ k) v\<bar> \<le> q ^ k * \<bar>v\<bar> + 20 * \<eta>"
proof (induction k)
  case 0
  show ?case using e by simp
next
  case (Suc k)
  have "\<bar>(friction ^^ Suc k) v\<bar> \<le> q * \<bar>(friction ^^ k) v\<bar> + \<eta>"
    using r by simp
  also have "\<dots> \<le> q * (q ^ k * \<bar>v\<bar> + 20 * \<eta>) + \<eta>"
    using Suc q(1) by (simp add: mult_left_mono)
  also have "\<dots> = q ^ Suc k * \<bar>v\<bar> + (20 * q + 1) * \<eta>"
    by (simp add: algebra_simps)
  also have "\<dots> \<le> q ^ Suc k * \<bar>v\<bar> + 20 * \<eta>"
  proof -
    have "(20 * q + 1) * \<eta> \<le> 20 * \<eta>"
      using q(2) e by (intro mult_right_mono) simp_all
    then show ?thesis by simp
  qed
  finally show ?case .
qed

lemma one_plus_power:
  fixes u :: real
  assumes "0 \<le> u" and "real N * u \<le> 1 / 20"
  shows "(1 + u) ^ N \<le> 20 / 19"
proof -
  have u1: "u \<le> 1 / 20 \<or> N = 0"
  proof (cases "N = 0")
    case False
    then have "1 \<le> real N" by simp
    then have "u \<le> real N * u" using assms(1) by (simp add: mult_le_cancel_right1)
    then show ?thesis using assms(2) by simp
  qed simp
  show ?thesis
  proof (cases "N = 0")
    case True
    then show ?thesis by simp
  next
    case False
    with u1 have ule: "u \<le> 1 / 20" by simp
    have b: "1 + real N * (- u) \<le> (1 + (- u)) ^ N"
      by (rule Bernoulli_inequality) (use ule in simp)
    then have low: "19 / 20 \<le> (1 - u) ^ N"
      using assms(2) by simp
    have "(1 + u) ^ N * (1 - u) ^ N = ((1 + u) * (1 - u)) ^ N"
      by (simp add: power_mult_distrib)
    also have "\<dots> \<le> 1"
    proof (rule power_le_one)
      show "0 \<le> (1 + u) * (1 - u)" using assms(1) ule by simp
      have "(1 + u) * (1 - u) = 1 - u * u" by (simp add: algebra_simps)
      then show "(1 + u) * (1 - u) \<le> 1" by simp
    qed
    finally have prod: "(1 + u) ^ N * (1 - u) ^ N \<le> 1" .
    have pos: "0 \<le> (1 + u) ^ N" using assms(1) by simp
    have "(1 + u) ^ N * (19 / 20) \<le> (1 + u) ^ N * (1 - u) ^ N"
      using low pos by (rule mult_left_mono)
    with prod have "(1 + u) ^ N * (19 / 20) \<le> 1" by linarith
    then show ?thesis by simp
  qed
qed

lemma rounded_small:
  fixes u \<eta> v :: real
  assumes r: "\<forall>w. \<bar>friction w\<bar> \<le> 0.9 * (1 + u) * \<bar>w\<bar> + \<eta>"
    and u: "0 \<le> u" and e: "0 \<le> \<eta>" "\<eta> \<le> 1 / 1000"
    and acc: "real (Suc M) * u \<le> 1 / 20"
    and M: "stepBound v \<le> M"
  shows "\<bar>(friction ^^ Suc M) v\<bar> \<le> 0.5"
proof -
  define q where "q = 0.9 * (1 + u)"
  have "u \<le> real (Suc M) * u"
    using u by (simp add: mult_le_cancel_right1)
  with acc have ule: "u \<le> 1 / 20" by simp
  have q: "0 \<le> q" "q \<le> 19 / 20"
    using u ule by (simp_all add: q_def)
  have r': "\<forall>w. \<bar>friction w\<bar> \<le> q * \<bar>w\<bar> + \<eta>"
    using r by (simp add: q_def)
  define X where "X = \<bar>v\<bar> * 0.9 ^ M"
  define G where "G = (1 + u) ^ Suc M"
  have small: "X \<le> 0.5"
    using decayed_small_iff [of v M] M by (simp add: X_def abs_mult)
  have nonneg: "0 \<le> X" by (simp add: X_def)
  have grow: "G \<le> 20 / 19"
    unfolding G_def by (rule one_plus_power [OF u acc])
  have gpos: "0 \<le> G" using u by (simp add: G_def)
  have "q ^ Suc M = 0.9 ^ Suc M * (1 + u) ^ Suc M"
    unfolding q_def by (rule power_mult_distrib)
  also have "(0.9::real) ^ Suc M = 0.9 * 0.9 ^ M"
    by (rule power_Suc)
  finally have split: "q ^ Suc M = 0.9 * 0.9 ^ M * G"
    by (simp only: G_def)
  have "q ^ Suc M * \<bar>v\<bar> = 0.9 * (X * G)"
    unfolding split X_def by (simp only: mult_ac)
  also have "\<dots> \<le> 0.9 * (0.5 * (20 / 19))"
  proof (rule mult_left_mono)
    show "X * G \<le> 0.5 * (20 / 19)"
      using small grow nonneg gpos by (intro mult_mono) simp_all
  qed simp
  finally have main: "q ^ Suc M * \<bar>v\<bar> \<le> 0.9 * (0.5 * (20 / 19))" .
  have "\<bar>(friction ^^ Suc M) v\<bar> \<le> q ^ Suc M * \<bar>v\<bar> + 20 * \<eta>"
    by (rule rounded_bound [OF r' q e(1)])
  with main e(2) show ?thesis by simp
qed

text \<open>
  Claim C4, amended. A run of the inertia simulator (one continuation pending) stops, for
  every velocity it starts with: it makes at least one step, since the test follows the
  step, and at most \<open>max 1 (max n\<^sub>x n\<^sub>y) + 1\<close> steps, where \<open>n\<close> is the bound of the
  specification for an axis (taken as 0 when it is negative or the axis has no velocity).
  A continuation is pending before each step and none after the last, when both velocity
  components are at most 0.5 in magnitude. This holds for every multiplication whose
  result is at most \<open>0.9 * (1 + u) * |v| + \<eta>\<close> in magnitude, as that of doubles is with
  \<open>u = 2 ^ -51\<close> and \<open>\<eta> = 2 ^ -1074\<close>, as long as the number of steps times \<open>u\<close> stays below
  1/20; the one step more than the bound allows for a product rounded up at the threshold.
\<close>

theorem inertia_terminates:
  assumes one: "inertiaPending s = 1"
    and rounding: "\<forall>w. \<bar>friction w\<bar> \<le> 0.9 * (1 + u) * \<bar>w\<bar> + \<eta>"
    and u: "0 \<le> u" and e: "0 \<le> \<eta>" "\<eta> \<le> 1 / 1000"
    and N: "N = max 1 (max (stepBound (xc (velocity s))) (stepBound (yc (velocity s)))) + 1"
    and acc: "real N * u \<le> 1 / 20"
  shows "\<exists>n. 1 \<le> n \<and> n \<le> N
           \<and> inertiaPending (framesWith friction L D n s) = 0
           \<and> \<not> big (velocity (framesWith friction L D n s))
           \<and> (\<forall>m<n. inertiaPending (framesWith friction L D m s) = 1)"
proof -
  define M where "M = max 1 (max (stepBound (xc (velocity s))) (stepBound (yc (velocity s))))"
  have NM: "N = Suc M" by (simp add: N M_def)
  have accM: "real (Suc M) * u \<le> 1 / 20" using acc by (simp only: NM)
  have "\<bar>(friction ^^ Suc M) (xc (velocity s))\<bar> \<le> 0.5"
    by (rule rounded_small [OF rounding u e accM]) (simp add: M_def)
  moreover have "\<bar>(friction ^^ Suc M) (yc (velocity s))\<bar> \<le> 0.5"
    by (rule rounded_small [OF rounding u e accM]) (simp add: M_def)
  ultimately have stopN: "1 \<le> N \<and> \<not> big (iterated friction N (velocity s))"
    by (simp add: NM big_def iterated_def)
  define n where "n = (LEAST k. 1 \<le> k \<and> \<not> big (iterated friction k (velocity s)))"
  have n: "1 \<le> n \<and> \<not> big (iterated friction n (velocity s))"
    unfolding n_def by (rule LeastI [of _ N]) (rule stopN)
  have nN: "n \<le> N"
    unfolding n_def by (rule Least_le) (rule stopN)
  have before: "big (iterated friction j (velocity s))" if "1 \<le> j" "j < n" for j
    using that not_less_Least [of j "\<lambda>k. 1 \<le> k \<and> \<not> big (iterated friction k (velocity s))"]
    by (auto simp: n_def)
  have alive: "\<forall>j. 1 \<le> j \<and> j < k \<longrightarrow> big (iterated friction j (velocity s))" if "k \<le> n" for k
    using that before by auto
  note at_n = framesWith_chain [OF one alive [of n], of L D]
  have stop: "inertiaPending (framesWith friction L D n s) = 0"
    using at_n n by simp
  have vel: "\<not> big (velocity (framesWith friction L D n s))"
    using at_n n by simp
  have run: "inertiaPending (framesWith friction L D m s) = 1" if "m < n" for m
  proof (cases "m = 0")
    case True
    then show ?thesis using one by simp
  next
    case False
    then have "big (iterated friction m (velocity s))" using before that by simp
    then show ?thesis using framesWith_chain [OF one alive [of m], of L D] that False by simp
  qed
  show ?thesis using n nN stop vel run by blast
qed

lemma roundedUp_within: "\<bar>roundedUp w\<bar> \<le> 0.9 * (1 + 1 / 2 ^ 51) * \<bar>w\<bar> + 0"
proof -
  have "\<bar>roundedUp w\<bar> = 0.9 * (1 + 1 / 2 ^ 52) * \<bar>w\<bar>"
    by (simp add: roundedUp_def abs_mult)
  also have "\<dots> \<le> 0.9 * (1 + 1 / 2 ^ 51) * \<bar>w\<bar>"
    by (intro mult_right_mono) simp_all
  finally show ?thesis by simp
qed

theorem inertia_terminates_witness:
  "inertiaPending coasting = 1
   \<and> max 1 (max (stepBound (xc (velocity coasting))) (stepBound (yc (velocity coasting)))) + 1 = 30
   \<and> (\<exists>n. 1 \<le> n \<and> n \<le> 30
         \<and> inertiaPending (framesWith roundedUp cardsLayout smallWindow n coasting) = 0
         \<and> \<not> big (velocity (framesWith roundedUp cardsLayout smallWindow n coasting)))"
proof -
  have one: "inertiaPending coasting = 1"
    by (simp add: coasting_eq inertiaPending_def)
  have r: "\<forall>w. \<bar>roundedUp w\<bar> \<le> 0.9 * (1 + 1 / 2 ^ 51) * \<bar>w\<bar> + 0"
    using roundedUp_within by blast
  have N: "30 = max 1 (max (stepBound (xc (velocity coasting))) (stepBound (yc (velocity coasting)))) + 1"
    by (simp add: coasting_eq stepBound_10 stepBound_0)
  have acc: "real 30 * (1 / 2 ^ 51) \<le> 1 / 20"
    by simp
  have "\<exists>n. 1 \<le> n \<and> n \<le> 30
         \<and> inertiaPending (framesWith roundedUp cardsLayout smallWindow n coasting) = 0
         \<and> \<not> big (velocity (framesWith roundedUp cardsLayout smallWindow n coasting))
         \<and> (\<forall>m<n. inertiaPending (framesWith roundedUp cardsLayout smallWindow m coasting) = 1)"
    by (rule inertia_terminates [OF one r _ _ _ N acc]) simp_all
  then have "\<exists>n. 1 \<le> n \<and> n \<le> 30
         \<and> inertiaPending (framesWith roundedUp cardsLayout smallWindow n coasting) = 0
         \<and> \<not> big (velocity (framesWith roundedUp cardsLayout smallWindow n coasting))"
    by blast
  with one N [symmetric] show ?thesis by blast
qed

text \<open>
  The step more than the bound is needed: with a multiplication that stays within the
  error bound and rounds up, a run from the velocity 5/9, whose bound is 1, has a
  continuation pending after its first step and none after the second.
\<close>

lemma threshold_eq:
  "threshold =
    \<lparr>offset = \<lparr>xc = 0, yc = 0\<rparr>,
     isDragging = False,
     lastPos = \<lparr>xc = 905 / 9, yc = 100\<rparr>,
     velocity = \<lparr>xc = 5 / 9, yc = 0\<rparr>,
     animationFrame = Some 2,
     transform = None,
     capture = None,
     pending = [(1, UpdateTransform), (2, AnimateMomentum)],
     nextHandle = 3\<rparr>"
  by (simp add: threshold_def Canvas_def handler_defs cardsLayout_def smallWindow_def)

lemma extra_step_needed:
  "stepBound (xc (velocity threshold)) = 1
   \<and> inertiaPending (framesWith roundedUp cardsLayout smallWindow 1 threshold) = 1
   \<and> inertiaPending (framesWith roundedUp cardsLayout smallWindow 2 threshold) = 0
   \<and> inertiaPending (framesWith exactFriction cardsLayout smallWindow 1 threshold) = 0"
proof -
  have "stepBound (5 / 9) = Suc 0"
    by (rule stepBound_eqI) simp_all
  then have "stepBound (xc (velocity threshold)) = 1"
    by (simp add: threshold_eq)
  moreover have "inertiaPending (framesWith roundedUp cardsLayout smallWindow 1 threshold) = 1"
    and "inertiaPending (framesWith roundedUp cardsLayout smallWindow 2 threshold) = 0"
    and "inertiaPending (framesWith exactFriction cardsLayout smallWindow 1 threshold) = 0"
    by (simp_all add: threshold_eq numeral_2_eq_2 runFrameWith_def animateMomentumWith_def
        roundedUp_def exactFriction_def handler_defs cardsLayout_def smallWindow_def)
  ultimately show ?thesis by blast
qed

lemma bound_quarter: "\<lceil>ln (0.5 / \<bar>- (1 / 4)\<bar>) / ln (0.9::real)\<rceil> < 0"
proof -
  have neg: "ln (0.9::real) < 0" by simp
  have "ln (2::real) + ln 0.9 = ln (2 * 0.9)"
    by (subst ln_mult) simp_all
  also have "\<dots> \<ge> 0" by simp
  finally have "- ln (0.9::real) \<le> ln 2" by simp
  then have "ln (2::real) / ln 0.9 \<le> - 1"
    using neg by (simp add: neg_divide_le_eq)
  then show ?thesis by simp
qed

text \<open>
  The bound as the claim states it fails for a velocity of magnitude 0.25: it is negative
  on both axes, while one step is pending, runs and moves the offset.
\<close>

theorem inertia_bound_counterexample:
  "inertiaPending nudged = 1
   \<and> velocity nudged = \<lparr>xc = - (1 / 4), yc = - (1 / 4)\<rparr>
   \<and> \<lceil>ln (0.5 / \<bar>xc (velocity nudged)\<bar>) / ln 0.9\<rceil> < 0
   \<and> \<lceil>ln (0.5 / \<bar>yc (velocity nudged)\<bar>) / ln 0.9\<rceil> < 0
   \<and> offset nudged = \<lparr>xc = - (1 / 4), yc = - (1 / 4)\<rparr>
   \<and> offset (frames cardsLayout smallWindow 1 nudged) = \<lparr>xc = - (1 / 2), yc = - (1 / 2)\<rparr>
   \<and> inertiaPending (frames cardsLayout smallWindow 1 nudged) = 0"
proof -
  have v: "velocity nudged = \<lparr>xc = - (1 / 4), yc = - (1 / 4)\<rparr>"
    by (simp add: nudged_eq)
  have "\<lceil>ln (0.5 / \<bar>xc (velocity nudged)\<bar>) / ln 0.9\<rceil> < 0"
    and "\<lceil>ln (0.5 / \<bar>yc (velocity nudged)\<bar>) / ln 0.9\<rceil> < 0"
    using bound_quarter by (simp_all only: v vec.select_convs)
  moreover have "inertiaPending nudged = 1"
    and "offset nudged = \<lparr>xc = - (1 / 4), yc = - (1 / 4)\<rparr>"
    and "offset (frames cardsLayout smallWindow 1 nudged) = \<lparr>xc = - (1 / 2), yc = - (1 / 2)\<rparr>"
    and "inertiaPending (frames cardsLayout smallWindow 1 nudged) = 0"
    by (simp_all add: nudged_eq handler_defs cardsLayout_def smallWindow_def)
  ultimately show ?thesis using v by blast
qed

lemma geo_bounds: "j \<le> n \<Longrightarrow> 0 \<le> geo j \<and> geo j \<le> geo n"
proof -
  assume "j \<le> n"
  then have "(0.9::real) ^ n \<le> 0.9 ^ j" by (intro power_decreasing) simp_all
  moreover have "(0.9::real) ^ j \<le> 1" by (intro power_le_one) simp_all
  ultimately show ?thesis by (simp add: geo_def field_simps)
qed

lemma coast_from_ten:
  assumes one: "inertiaPending s = 1"
    and vel: "velocity s = \<lparr>xc = 10, yc = 0\<rparr>"
    and inb: "inBounds (boundsOf L D) (offset s)"
    and room: "xc (offset s) + 10 * geo 29 \<le> 0"
    and k: "k \<le> 29"
  shows "velocity (frames L D k s) = \<lparr>xc = 10 * 0.9 ^ k, yc = 0\<rparr>"
    and "offset (frames L D k s) = \<lparr>xc = xc (offset s) + 10 * geo k, yc = yc (offset s)\<rparr>"
    and "inertiaPending (frames L D k s) = (if k < 29 then 1 else 0)"
proof -
  have alive: "\<forall>j. 1 \<le> j \<and> j < k \<longrightarrow> big (decay j (velocity s))"
    using k by (simp add: big_decay_iff vel stepBound_10 stepBound_0)
  show "velocity (frames L D k s) = \<lparr>xc = 10 * 0.9 ^ k, yc = 0\<rparr>"
    using frames_decay [OF one alive, of L D] by (simp add: decay_def vel)
  have free: "\<forall>j\<le>k. inBounds (boundsOf L D)
                 \<lparr>xc = xc (offset s) + geo j * xc (velocity s),
                  yc = yc (offset s) + geo j * yc (velocity s)\<rparr>"
  proof (intro allI impI)
    fix j assume "j \<le> k"
    with k have "j \<le> 29" by simp
    from geo_bounds [OF this] inb room
    show "inBounds (boundsOf L D)
                 \<lparr>xc = xc (offset s) + geo j * xc (velocity s),
                  yc = yc (offset s) + geo j * yc (velocity s)\<rparr>"
      by (simp add: inBounds_def vel)
  qed
  show "offset (frames L D k s) = \<lparr>xc = xc (offset s) + 10 * geo k, yc = yc (offset s)\<rparr>"
    using frames_unclamped [OF one alive free] by (simp add: vel mult.commute)
  show "inertiaPending (frames L D k s) = (if k < 29 then 1 else 0)"
  proof (cases "k = 0")
    case True
    then show ?thesis using one by simp
  next
    case False
    then show ?thesis using frames_decay [OF one alive, of L D] k
      by (simp add: big_decay_iff vel stepBound_10 stepBound_0)
  qed
qed

lemma geo_29: "\<bar>10 * geo 29 - 95.29\<bar> < 0.01"
  by (simp add: geo_def power_divide abs_if)

text \<open>
  Claim C7, amended. Started with velocity (10, 0) at an offset within the bounds and far
  enough from 0 that nothing is clamped, the run applies the velocities
  \<open>10, 9, 8.1, \<dots>\<close>, has a continuation pending before each of its 29 steps and none
  after the 29th, and changes the offset by \<open>10 * (1 - 0.9 ^ 29) / (1 - 0.9)\<close> on the x axis,
  which is 95.29 to two decimals, and by nothing on the y axis.
\<close>

theorem inertia_settles:
  assumes "inertiaPending s = 1"
    and "velocity s = \<lparr>xc = 10, yc = 0\<rparr>"
    and "inBounds (boundsOf L D) (offset s)"
    and "xc (offset s) + 10 * (1 - 0.9 ^ 29) / (1 - 0.9) \<le> 0"
  shows "(\<forall>k\<le>29. velocity (frames L D k s) = \<lparr>xc = 10 * 0.9 ^ k, yc = 0\<rparr>)
     \<and> (\<forall>k<29. inertiaPending (frames L D k s) = 1)
     \<and> inertiaPending (frames L D 29 s) = 0
     \<and> offset (frames L D 29 s) =
         \<lparr>xc = xc (offset s) + 10 * (1 - 0.9 ^ 29) / (1 - 0.9), yc = yc (offset s)\<rparr>
     \<and> \<bar>10 * (1 - 0.9 ^ 29) / (1 - 0.9) - 95.29\<bar> < (0.01::real)"
proof -
  have room: "xc (offset s) + 10 * geo 29 \<le> 0"
    using assms(4) by (simp add: geo_def)
  note c = coast_from_ten [OF assms(1-3) room]
  have "\<forall>k\<le>29. velocity (frames L D k s) = \<lparr>xc = 10 * 0.9 ^ k, yc = 0\<rparr>"
    using c(1) by blast
  moreover have "\<forall>k<29. inertiaPending (frames L D k s) = 1"
    using c(3) by simp
  moreover have "inertiaPending (frames L D 29 s) = 0"
    using c(3) [of 29] by simp
  moreover have "offset (frames L D 29 s) =
         \<lparr>xc = xc (offset s) + 10 * (1 - 0.9 ^ 29) / (1 - 0.9), yc = yc (offset s)\<rparr>"
    using c(2) [of 29] by (simp add: geo_def)
  moreover have "\<bar>10 * (1 - 0.9 ^ 29) / (1 - 0.9) - 95.29\<bar> < (0.01::real)"
    using geo_29 by (simp add: geo_def)
  ultimately show ?thesis by blast
qed

theorem inertia_settles_witness:
  "inertiaPending coasting = 1
   \<and> velocity (frames cardsLayout smallWindow 2 coasting) = \<lparr>xc = 10 * 0.9 ^ 2, yc = 0\<rparr>
   \<and> inertiaPending (frames cardsLayout smallWindow 28 coasting) = 1
   \<and> inertiaPending (frames cardsLayout smallWindow 29 coasting) = 0
   \<and> offset (frames cardsLayout smallWindow 29 coasting) =
       \<lparr>xc = - 1000 + 10 * (1 - 0.9 ^ 29) / (1 - 0.9), yc = 0\<rparr>"
proof -
  have one: "inertiaPending coasting = 1"
    by (simp add: coasting_eq inertiaPending_def)
  have vel: "velocity coasting = \<lparr>xc = 10, yc = 0\<rparr>"
    by (simp add: coasting_eq)
  have inb: "inBounds (boundsOf cardsLayout smallWindow) (offset coasting)"
    by (simp add: coasting_eq inBounds_def boundsOf_def minX_def minY_def containerWidth_def
        cardsLayout_def smallWindow_def)
  have room: "xc (offset coasting) + 10 * (1 - 0.9 ^ 29) / (1 - 0.9) \<le> 0"
    by (simp add: coasting_eq power_divide)
  from inertia_settles [OF one vel inb room]
  have a: "\<forall>k\<le>29. velocity (frames cardsLayout smallWindow k coasting) = \<lparr>xc = 10 * 0.9 ^ k, yc = 0\<rparr>"
    and b: "\<forall>k<29. inertiaPending (frames cardsLayout smallWindow k coasting) = 1"
    and c: "inertiaPending (frames cardsLayout smallWindow 29 coasting) = 0"
    and d: "offset (frames cardsLayout smallWindow 29 coasting) =
         \<lparr>xc = xc (offset coasting) + 10 * (1 - 0.9 ^ 29) / (1 - 0.9), yc = yc (offset coasting)\<rparr>"
    by blast+
  from a have "velocity (frames cardsLayout smallWindow 2 coasting) = \<lparr>xc = 10 * 0.9 ^ 2, yc = 0\<rparr>"
    by simp
  moreover from b have "inertiaPending (frames cardsLayout smallWindow 28 coasting) = 1"
    by simp
  moreover from d have "offset (frames cardsLayout smallWindow 29 coasting) =
       \<lparr>xc = - 1000 + 10 * (1 - 0.9 ^ 29) / (1 - 0.9), yc = 0\<rparr>"
    by (simp add: coasting_eq)
  ultimately show ?thesis using one c by blast
qed

text \<open>
  The total is not 99.3: after the drag and release above, the 29 steps move the offset
  by less than 95.3.
\<close>

theorem inertia_total_counterexample:
  "velocity coasting = \<lparr>xc = 10, yc = 0\<rparr>
   \<and> inertiaPending (frames cardsLayout smallWindow 28 coasting) = 1
   \<and> inertiaPending (frames cardsLayout smallWindow 29 coasting) = 0
   \<and> xc (offset (frames cardsLayout smallWindow 29 coasting)) - xc (offset coasting) < 95.3"
proof -
  have one: "inertiaPending coasting = 1"
    by (simp add: coasting_eq inertiaPending_def)
  have vel: "velocity coasting = \<lparr>xc = 10, yc = 0\<rparr>"
    by (simp add: coasting_eq)
  have inb: "inBounds (boundsOf cardsLayout smallWindow) (offset coasting)"
    by (simp add: coasting_eq inBounds_def boundsOf_def minX_def minY_def containerWidth_def
        cardsLayout_def smallWindow_def)
  have room: "xc (offset coasting) + 10 * geo 29 \<le> 0"
    by (simp add: coasting_eq geo_def power_divide)
  note c = coast_from_ten [OF one vel inb room]
  have "xc (offset (frames cardsLayout smallWindow 29 coasting)) - xc (offset coasting) = 10 * geo 29"
    using c(2) [of 29] by simp
  then have "xc (offset (frames cardsLayout smallWindow 29 coasting)) - xc (offset coasting) < 95.3"
    using geo_29 by (simp add: abs_if split: if_splits)
  then show ?thesis using vel c(3) [of 28] c(3) [of 29] by simp
qed

subsection \<open>Boundaries, rest and moves\<close>

lemma runFrame_invariant:
  assumes am: "\<And>t. P t \<Longrightarrow> P (animateMomentum L D t)"
    and ut: "\<And>t. P t \<Longrightarrow> P (updateTransform D t)"
    and start: "P (s\<lparr>pending := []\<rparr>)"
  shows "P (runFrame L D s)"
proof -
  have "P t \<Longrightarrow> P (fold (\<lambda>p. runCallback L D (snd p)) cbs t)" for cbs t
  proof (induction cbs arbitrary: t)
    case Nil
    then show ?case by simp
  next
    case (Cons p cbs)
    have "P (runCallback L D (snd p) t)"
      using Cons.prems by (cases "snd p") (simp_all add: am ut)
    then show ?case using Cons.IH by simp
  qed
  then show ?thesis using start by (simp add: runFrame_def)
qed

lemma frames_invariant:
  assumes am: "\<And>t. P t \<Longrightarrow> P (animateMomentum L D t)"
    and ut: "\<And>t. P t \<Longrightarrow> P (updateTransform D t)"
    and emp: "\<And>t. P t \<Longrightarrow> P (t\<lparr>pending := []\<rparr>)"
    and s: "P s"
  shows "P (frames L D n s)"
proof (induction n)
  case 0
  show ?case using s by simp
next
  case (Suc n)
  show ?case
    by (simp only: frames_Suc) (rule runFrame_invariant [OF am ut emp [OF Suc]])
qed

lemma pinnedX_animateMomentum:
  "pinnedX L D s \<Longrightarrow>
   pinnedX L D (animateMomentum L D s) \<and> xc (offset (animateMomentum L D s)) = xc (offset s)"
  using minX_le_0 [of L D]
  by (auto simp: pinnedX_def offset_animateMomentum velocity_animateMomentum clamp_def
      boundsOf_def max_def min_def)

lemma pinnedY_animateMomentum:
  "pinnedY L D s \<Longrightarrow>
   pinnedY L D (animateMomentum L D s) \<and> yc (offset (animateMomentum L D s)) = yc (offset s)"
  using minY_le_0 [of L D]
  by (auto simp: pinnedY_def offset_animateMomentum velocity_animateMomentum clamp_def
      boundsOf_def max_def min_def)

lemma pinnedX_frames:
  assumes "pinnedX L D s"
  shows "pinnedX L D (frames L D n s) \<and> xc (offset (frames L D n s)) = xc (offset s)"
proof (rule frames_invariant [where P = "\<lambda>t. pinnedX L D t \<and> xc (offset t) = xc (offset s)"])
  show "pinnedX L D s \<and> xc (offset s) = xc (offset s)" using assms by simp
qed (auto simp: pinnedX_animateMomentum, auto simp: pinnedX_def)

lemma pinnedY_frames:
  assumes "pinnedY L D s"
  shows "pinnedY L D (frames L D n s) \<and> yc (offset (frames L D n s)) = yc (offset s)"
proof (rule frames_invariant [where P = "\<lambda>t. pinnedY L D t \<and> yc (offset t) = yc (offset s)"])
  show "pinnedY L D s \<and> yc (offset s) = yc (offset s)" using assms by simp
qed (auto simp: pinnedY_animateMomentum, auto simp: pinnedY_def)

text \<open>
  Claim C6. An inertia step multiplies the velocity by 0.9 on each axis whether or not the
  offset was clamped, and clamps offset plus velocity on each axis by itself; nothing
  reverses the velocity. An axis pinned at an end of its range with the velocity pointing
  outwards keeps its offset in the step and through any number of display refreshes,
  while the other axis moves by its own clamped velocity.
\<close>

theorem boundary_sticks:
  "velocity (animateMomentum L D s) = \<lparr>xc = xc (velocity s) * 0.9, yc = yc (velocity s) * 0.9\<rparr>
   \<and> offset (animateMomentum L D s) =
       \<lparr>xc = max (minX L D) (min 0 (xc (offset s) + xc (velocity s))),
        yc = max (minY L D) (min 0 (yc (offset s) + yc (velocity s)))\<rparr>
   \<and> (pinnedX L D s \<longrightarrow>
        xc (offset (animateMomentum L D s)) = xc (offset s)
        \<and> (\<forall>n. xc (offset (frames L D n s)) = xc (offset s)))
   \<and> (pinnedY L D s \<longrightarrow>
        yc (offset (animateMomentum L D s)) = yc (offset s)
        \<and> (\<forall>n. yc (offset (frames L D n s)) = yc (offset s)))"
  using pinnedX_frames [of L D s] pinnedY_frames [of L D s]
    pinnedX_animateMomentum [of L D s] pinnedY_animateMomentum [of L D s]
  by (simp add: velocity_animateMomentum offset_animateMomentum clamp_def boundsOf_def)

lemma cornered_eq:
  "cornered =
    \<lparr>offset = \<lparr>xc = 0, yc = - 10\<rparr>,
     isDragging = False,
     lastPos = \<lparr>xc = 110, yc = 90\<rparr>,
     velocity = \<lparr>xc = 10, yc = - 10\<rparr>,
     animationFrame = Some 2,
     transform = None,
     capture = None,
     pending = [(1, UpdateTransform), (2, AnimateMomentum)],
     nextHandle = 3\<rparr>"
  by (simp add: cornered_def Canvas_def handler_defs cardsLayout_def smallWindow_def)

theorem boundary_sticks_witness:
  "pinnedX cardsLayout smallWindow cornered
   \<and> velocity (animateMomentum cardsLayout smallWindow cornered) = \<lparr>xc = 9, yc = - 9\<rparr>
   \<and> offset (animateMomentum cardsLayout smallWindow cornered) = \<lparr>xc = 0, yc = - 20\<rparr>
   \<and> xc (offset (frames cardsLayout smallWindow 3 cornered)) = 0
   \<and> pinnedY cardsLayout smallWindow coasting
   \<and> offset (animateMomentum cardsLayout smallWindow coasting) = \<lparr>xc = - 990, yc = 0\<rparr>
   \<and> yc (offset (frames cardsLayout smallWindow 3 coasting)) = 0"
proof -
  have p: "pinnedX cardsLayout smallWindow cornered"
    by (simp add: pinnedX_def cornered_eq)
  from boundary_sticks [of cardsLayout smallWindow cornered] p
  have "velocity (animateMomentum cardsLayout smallWindow cornered) = \<lparr>xc = 9, yc = - 9\<rparr>"
    and "offset (animateMomentum cardsLayout smallWindow cornered) = \<lparr>xc = 0, yc = - 20\<rparr>"
    and "\<forall>n. xc (offset (frames cardsLayout smallWindow n cornered)) = 0"
    by (simp_all add: cornered_eq minX_def minY_def containerWidth_def cardsLayout_def
        smallWindow_def)
  moreover have q: "pinnedY cardsLayout smallWindow coasting"
    by (simp add: pinnedY_def coasting_eq)
  moreover from boundary_sticks [of cardsLayout smallWindow coasting] q
  have "offset (animateMomentum cardsLayout smallWindow coasting) = \<lparr>xc = - 990, yc = 0\<rparr>"
    and "\<forall>n. yc (offset (frames cardsLayout smallWindow n coasting)) = 0"
    by (simp_all add: coasting_eq minX_def minY_def containerWidth_def cardsLayout_def
        smallWindow_def)
  ultimately show ?thesis using p by simp
qed

lemma clamp_fields_inBounds: "inBounds b p \<Longrightarrow> clamp b \<lparr>xc = xc p, yc = yc p\<rparr> = p"
  by (cases p) (simp add: clamp_def inBounds_def max_def min_def)

lemma resting_animateMomentum:
  assumes "inBounds (boundsOf L D) p" and "resting p t"
  shows "resting p (animateMomentum L D t)"
    and "pending (animateMomentum L D t) = pending t"
  using assms clamp_fields_inBounds [OF assms(1)]
  by (simp_all add: resting_def offset_animateMomentum velocity_animateMomentum
      pending_animateMomentum)

lemma resting_frames:
  assumes inb: "inBounds (boundsOf L D) p" and r: "resting p s"
  shows "resting p (frames L D n s)"
proof (rule frames_invariant [where P = "resting p"])
  show "resting p s" by (rule r)
qed (simp_all add: resting_animateMomentum(1) [OF inb], simp_all add: resting_def)

lemma resting_runFrame_pending:
  assumes inb: "inBounds (boundsOf L D) p" and r: "resting p s"
  shows "inertiaPending (runFrame L D s) = 0"
proof -
  have "resting p (runFrame L D s) \<and> inertiaPending (runFrame L D s) = 0"
  proof (rule runFrame_invariant [where P = "\<lambda>t. resting p t \<and> inertiaPending t = 0"])
    show "resting p (s\<lparr>pending := []\<rparr>) \<and> inertiaPending (s\<lparr>pending := []\<rparr>) = 0"
      using r by (simp add: resting_def inertiaPending_def)
  next
    fix t assume "resting p t \<and> inertiaPending t = 0"
    then show "resting p (animateMomentum L D t) \<and> inertiaPending (animateMomentum L D t) = 0"
      using resting_animateMomentum [OF inb, of t] by (simp add: inertiaPending_def)
  next
    fix t assume "resting p t \<and> inertiaPending t = 0"
    then show "resting p (updateTransform D t) \<and> inertiaPending (updateTransform D t) = 0"
      by (simp add: resting_def inertiaPending_def)
  qed
  then show ?thesis ..
qed

lemma resting_frames_pending:
  assumes inb: "inBounds (boundsOf L D) p" and r: "resting p s"
  shows "inertiaPending (frames L D (Suc n) s) = 0"
  using resting_runFrame_pending [OF inb resting_frames [OF inb r, of n]]
  by (simp only: frames_Suc)

lemma onPointerUp_fields:
  "velocity (onPointerUp pid s) = velocity s"
  "inertiaPending (onPointerUp pid s) = Suc (inertiaPending s)"
  "animationFrame (onPointerUp pid s) = Some (nextHandle s)"
  by (simp_all add: onPointerUp_def Let_def releasePointerCapture_def requestAnimationFrame_def
      inertiaPending_def)

lemma onPointerDown_fields:
  "velocity (onPointerDown pid cx cy s) = \<lparr>xc = 0, yc = 0\<rparr>"
  "isDragging (onPointerDown pid cx cy s)"
  "lastPos (onPointerDown pid cx cy s) = \<lparr>xc = cx, yc = cy\<rparr>"
  by (simp_all add: onPointerDown_def Let_def setPointerCapture_def cancelAnimationFrame_def
      split: option.splits)

lemma resting_release:
  assumes "velocity s = \<lparr>xc = 0, yc = 0\<rparr>" and "inBounds (boundsOf L D) (offset s)"
  shows "offset (frames L D n (onPointerUp pid s)) = offset s
     \<and> velocity (frames L D n (onPointerUp pid s)) = \<lparr>xc = 0, yc = 0\<rparr>
     \<and> inertiaPending (frames L D (Suc n) (onPointerUp pid s)) = 0"
proof -
  have r: "resting (offset s) (onPointerUp pid s)"
    using assms(1) by (simp add: resting_def onPointerUp_fields)
  show ?thesis
    using resting_frames [OF assms(2) r, of n] resting_frames_pending [OF assms(2) r, of n]
    by (simp add: resting_def)
qed

text \<open>
  Claim C9, amended. A release with velocity (0, 0), at an offset within the bounds of the
  document, queues one inertia step; through any number of display refreshes the offset
  and the velocity stay as they were, and after the first refresh no inertia continuation
  is pending. A press sets the velocity to (0, 0), so this is what a gesture with no move
  does at an offset within the bounds; and a move with no displacement sets the velocity
  to (0, 0) and leaves the offset within the bounds, so a gesture that ends with such a
  move is followed by no motion.
\<close>

theorem zero_velocity_inertia:
  "(velocity s = \<lparr>xc = 0, yc = 0\<rparr> \<and> inBounds (boundsOf L D) (offset s) \<longrightarrow>
      inertiaPending (onPointerUp pid s) = Suc (inertiaPending s)
      \<and> (\<forall>n. offset (frames L D n (onPointerUp pid s)) = offset s
             \<and> velocity (frames L D n (onPointerUp pid s)) = \<lparr>xc = 0, yc = 0\<rparr>
             \<and> inertiaPending (frames L D (Suc n) (onPointerUp pid s)) = 0))
   \<and> velocity (onPointerDown pid clientX clientY t) = \<lparr>xc = 0, yc = 0\<rparr>
   \<and> (inBounds (boundsOf L D) (offset t) \<longrightarrow>
        (\<forall>n. offset (frames L D n (run L (gesture D pid (clientX, clientY) []) t)) = offset t
            \<and> inertiaPending
                 (frames L D (Suc n) (run L (gesture D pid (clientX, clientY) []) t)) = 0))
   \<and> (isDragging r \<longrightarrow>
        velocity (onPointerMove L D (xc (lastPos r)) (yc (lastPos r)) r) = \<lparr>xc = 0, yc = 0\<rparr>
        \<and> (\<forall>n. offset (frames L D n
                   (onPointerUp pid (onPointerMove L D (xc (lastPos r)) (yc (lastPos r)) r)))
                 = offset (onPointerMove L D (xc (lastPos r)) (yc (lastPos r)) r)
               \<and> inertiaPending (frames L D (Suc n)
                   (onPointerUp pid (onPointerMove L D (xc (lastPos r)) (yc (lastPos r)) r)))
                 = 0))"
proof -
  have p1: "inertiaPending (onPointerUp pid s) = Suc (inertiaPending s)"
    by (simp add: onPointerUp_fields)
  have p2: "\<forall>n. offset (frames L D n (onPointerUp pid s)) = offset s
             \<and> velocity (frames L D n (onPointerUp pid s)) = \<lparr>xc = 0, yc = 0\<rparr>
             \<and> inertiaPending (frames L D (Suc n) (onPointerUp pid s)) = 0"
    if "velocity s = \<lparr>xc = 0, yc = 0\<rparr> \<and> inBounds (boundsOf L D) (offset s)"
    using that resting_release [of s L D _ pid] by blast
  have p3: "velocity (onPointerDown pid clientX clientY t) = \<lparr>xc = 0, yc = 0\<rparr>"
    by (rule onPointerDown_fields)
  have p4: "\<forall>n. offset (frames L D n (run L (gesture D pid (clientX, clientY) []) t)) = offset t
            \<and> inertiaPending
                 (frames L D (Suc n) (run L (gesture D pid (clientX, clientY) []) t)) = 0"
    if inb: "inBounds (boundsOf L D) (offset t)"
  proof -
    define t1 where "t1 = onPointerDown pid clientX clientY t"
    have g: "run L (gesture D pid (clientX, clientY) []) t = onPointerUp pid t1"
      by (simp add: gesture_def moves_def t1_def)
    have v: "velocity t1 = \<lparr>xc = 0, yc = 0\<rparr>" and o: "offset t1 = offset t"
      by (simp_all add: t1_def onPointerDown_fields)
    have inb1: "inBounds (boundsOf L D) (offset t1)" using inb by (simp only: o)
    show ?thesis
      unfolding g using resting_release [OF v inb1, of _ pid] by (simp only: o) blast
  qed
  define r1 where "r1 = onPointerMove L D (xc (lastPos r)) (yc (lastPos r)) r"
  have p5: "velocity r1 = \<lparr>xc = 0, yc = 0\<rparr>
        \<and> (\<forall>n. offset (frames L D n (onPointerUp pid r1)) = offset r1
               \<and> inertiaPending (frames L D (Suc n) (onPointerUp pid r1)) = 0)"
    if d: "isDragging r"
  proof -
    have v: "velocity r1 = \<lparr>xc = 0, yc = 0\<rparr>"
      using d by (simp add: r1_def onPointerMove_def Let_def requestAnimationFrame_def)
    have inb: "inBounds (boundsOf L D) (offset r1)"
      unfolding r1_def by (rule inBounds_onPointerMove [OF d])
    show ?thesis using resting_release [OF v inb, of _ pid] v by blast
  qed
  show ?thesis
    unfolding r1_def [symmetric] using p1 p2 p3 p4 p5 by blast
qed

lemma paused_eq:
  "paused =
    \<lparr>offset = \<lparr>xc = - 10, yc = 0\<rparr>,
     isDragging = True,
     lastPos = \<lparr>xc = 90, yc = 100\<rparr>,
     velocity = \<lparr>xc = 0, yc = 0\<rparr>,
     animationFrame = None,
     transform = None,
     capture = Some 1,
     pending = [(1, UpdateTransform), (2, UpdateTransform)],
     nextHandle = 3\<rparr>"
  by (simp add: paused_def Canvas_def handler_defs cardsLayout_def smallWindow_def)

theorem zero_velocity_inertia_witness:
  "velocity paused = \<lparr>xc = 0, yc = 0\<rparr>
   \<and> inBounds (boundsOf cardsLayout smallWindow) (offset paused)
   \<and> inertiaPending (onPointerUp 1 paused) = 1
   \<and> offset (frames cardsLayout smallWindow 1 (onPointerUp 1 paused)) = \<lparr>xc = - 10, yc = 0\<rparr>
   \<and> inertiaPending (frames cardsLayout smallWindow 1 (onPointerUp 1 paused)) = 0
   \<and> inBounds (boundsOf cardsLayout smallWindow) (offset coasting)
   \<and> offset (frames cardsLayout smallWindow 2
         (run cardsLayout (gesture smallWindow 1 (50, 50) []) coasting)) = \<lparr>xc = - 1000, yc = 0\<rparr>
   \<and> inertiaPending (frames cardsLayout smallWindow 1
         (run cardsLayout (gesture smallWindow 1 (50, 50) []) coasting)) = 0
   \<and> isDragging paused
   \<and> velocity (onPointerMove cardsLayout smallWindow 90 100 paused) = \<lparr>xc = 0, yc = 0\<rparr>
   \<and> offset (frames cardsLayout smallWindow 2
         (onPointerUp 1 (onPointerMove cardsLayout smallWindow 90 100 paused)))
       = \<lparr>xc = - 10, yc = 0\<rparr>"
proof -
  have v: "velocity paused = \<lparr>xc = 0, yc = 0\<rparr>" and d: "isDragging paused"
    and lp: "lastPos paused = \<lparr>xc = 90, yc = 100\<rparr>"
    by (simp_all add: paused_eq)
  have inb: "inBounds (boundsOf cardsLayout smallWindow) (offset paused)"
    by (simp add: paused_eq inBounds_def boundsOf_def minX_def minY_def containerWidth_def
        cardsLayout_def smallWindow_def)
  have inb': "inBounds (boundsOf cardsLayout smallWindow) (offset coasting)"
    by (simp add: coasting_eq inBounds_def boundsOf_def minX_def minY_def containerWidth_def
        cardsLayout_def smallWindow_def)
  note z = zero_velocity_inertia [of paused cardsLayout smallWindow 1 50 50 coasting paused]
  from z v inb
  have a1: "inertiaPending (onPointerUp 1 paused) = Suc (inertiaPending paused)"
    and a2: "offset (frames cardsLayout smallWindow 1 (onPointerUp 1 paused)) = offset paused"
    and a3: "inertiaPending (frames cardsLayout smallWindow (Suc 0) (onPointerUp 1 paused)) = 0"
    by blast+
  from z inb'
  have b1: "offset (frames cardsLayout smallWindow 2
         (run cardsLayout (gesture smallWindow 1 (50, 50) []) coasting)) = offset coasting"
    and b2: "inertiaPending (frames cardsLayout smallWindow (Suc 0)
         (run cardsLayout (gesture smallWindow 1 (50, 50) []) coasting)) = 0"
    by blast+
  from z d
  have c1: "velocity (onPointerMove cardsLayout smallWindow (xc (lastPos paused)) (yc (lastPos paused)) paused)
        = \<lparr>xc = 0, yc = 0\<rparr>"
    and c2: "offset (frames cardsLayout smallWindow 2
         (onPointerUp 1 (onPointerMove cardsLayout smallWindow (xc (lastPos paused)) (yc (lastPos paused)) paused)))
       = offset (onPointerMove cardsLayout smallWindow (xc (lastPos paused)) (yc (lastPos paused)) paused)"
    by blast+
  have om: "offset (onPointerMove cardsLayout smallWindow 90 100 paused) = \<lparr>xc = - 10, yc = 0\<rparr>"
    by (simp add: paused_eq handler_defs cardsLayout_def smallWindow_def)
  show ?thesis
    using v inb inb' d a1 a2 a3 b1 b2 c1 c2 om
    by (simp add: lp) (simp add: paused_eq coasting_eq inertiaPending_def)
qed

lemma resized_eq:
  "resized =
    \<lparr>offset = \<lparr>xc = - 1712, yc = 0\<rparr>,
     isDragging = True,
     lastPos = \<lparr>xc = 500, yc = 100\<rparr>,
     velocity = \<lparr>xc = 0, yc = 0\<rparr>,
     animationFrame = Some 3,
     transform = Some \<lparr>xc = - 1712, yc = 0\<rparr>,
     capture = Some 1,
     pending = [],
     nextHandle = 4\<rparr>"
  by (simp add: resized_def Canvas_def handler_defs cardsLayout_def smallWindow_def)

lemma wiggled_eq:
  "wiggled =
    \<lparr>offset = \<lparr>xc = - 1000, yc = 0\<rparr>,
     isDragging = False,
     lastPos = \<lparr>xc = 500, yc = 100\<rparr>,
     velocity = \<lparr>xc = - 10, yc = 0\<rparr>,
     animationFrame = Some 6,
     transform = Some \<lparr>xc = - 1000, yc = 0\<rparr>,
     capture = None,
     pending = [(4, UpdateTransform), (5, UpdateTransform), (6, AnimateMomentum)],
     nextHandle = 7\<rparr>"
  by (simp add: wiggled_def Canvas_def handler_defs cardsLayout_def smallWindow_def)

text \<open>
  Without the proviso the claim fails: after the window was widened, the step of a release
  with velocity (0, 0) moves the offset from -1712 to the new minimum -1212. And a gesture
  that ends where it began need not have velocity 0: its last move sets the velocity, and
  the inertia step moves the offset.
\<close>

theorem zero_velocity_counterexample:
  "velocity resized = \<lparr>xc = 0, yc = 0\<rparr>
   \<and> offset resized = \<lparr>xc = - 1712, yc = 0\<rparr>
   \<and> offset (frames cardsLayout wideWindow 1 (onPointerUp 1 resized)) = \<lparr>xc = - 1212, yc = 0\<rparr>
   \<and> lastPos wiggled = \<lparr>xc = 500, yc = 100\<rparr>
   \<and> velocity wiggled = \<lparr>xc = - 10, yc = 0\<rparr>
   \<and> offset wiggled = \<lparr>xc = - 1000, yc = 0\<rparr>
   \<and> offset (frames cardsLayout smallWindow 1 wiggled) = \<lparr>xc = - 1010, yc = 0\<rparr>"
  by (simp add: resized_eq wiggled_eq handler_defs cardsLayout_def smallWindow_def wideWindow_def)

lemma move_axis:
  fixes m o' d :: real
  assumes "m \<le> o'" and "o' \<le> 0"
  shows "\<bar>max m (min 0 (o' + d)) - o'\<bar> \<le> \<bar>d\<bar>"
    and "max m (min 0 (o' + d)) - o' = 0 \<or> sgn (max m (min 0 (o' + d)) - o') = sgn d"
  using assms by (auto simp: max_def min_def sgn_if)

text \<open>
  Claim C10, amended. For a move during a drag, at an offset within the bounds of the
  document: on each axis the offset changes by at most the raw displacement, and in its
  direction or not at all. The velocity becomes the raw displacement, also where the
  offset did not change, and a release keeps it and queues an inertia step. When the move
  pushes against the end of the range the offset is at, the offset does not change on that
  axis, and no number of display refreshes after the release changes it.
\<close>

theorem move_shortened:
  assumes drag: "isDragging s"
    and inb: "inBounds (boundsOf L D) (offset s)"
  shows "let s' = onPointerMove L D clientX clientY s;
             dx = clientX - xc (lastPos s);
             dy = clientY - yc (lastPos s);
             mx = xc (offset s') - xc (offset s);
             my = yc (offset s') - yc (offset s)
         in \<bar>mx\<bar> \<le> \<bar>dx\<bar> \<and> (mx = 0 \<or> sgn mx = sgn dx)
            \<and> \<bar>my\<bar> \<le> \<bar>dy\<bar> \<and> (my = 0 \<or> sgn my = sgn dy)
            \<and> velocity s' = \<lparr>xc = dx, yc = dy\<rparr>
            \<and> velocity (onPointerUp pointerId s') = \<lparr>xc = dx, yc = dy\<rparr>
            \<and> 1 \<le> inertiaPending (onPointerUp pointerId s')
            \<and> (xc (offset s) = minX L D \<and> dx < 0 \<or> xc (offset s) = 0 \<and> 0 < dx \<longrightarrow>
                 mx = 0
                 \<and> (\<forall>n. xc (offset (frames L D n (onPointerUp pointerId s'))) = xc (offset s)))
            \<and> (yc (offset s) = minY L D \<and> dy < 0 \<or> yc (offset s) = 0 \<and> 0 < dy \<longrightarrow>
                 my = 0
                 \<and> (\<forall>n. yc (offset (frames L D n (onPointerUp pointerId s'))) = yc (offset s)))"
proof -
  define s' where "s' = onPointerMove L D clientX clientY s"
  define dx where "dx = clientX - xc (lastPos s)"
  define dy where "dy = clientY - yc (lastPos s)"
  have bx: "minX L D \<le> xc (offset s)" "xc (offset s) \<le> 0"
    and "by": "minY L D \<le> yc (offset s)" "yc (offset s) \<le> 0"
    using inb by (simp_all add: inBounds_def boundsOf_def)
  have off: "offset s' =
      \<lparr>xc = max (minX L D) (min 0 (xc (offset s) + dx)),
       yc = max (minY L D) (min 0 (yc (offset s) + dy))\<rparr>"
    using drag by (simp add: s'_def dx_def dy_def onPointerMove_def Let_def requestAnimationFrame_def)
  have vel: "velocity s' = \<lparr>xc = dx, yc = dy\<rparr>"
    using drag by (simp add: s'_def dx_def dy_def onPointerMove_def Let_def requestAnimationFrame_def)
  have up: "offset (onPointerUp pointerId s') = offset s'"
    "velocity (onPointerUp pointerId s') = velocity s'"
    by (simp_all add: onPointerUp_fields)
  have px: "\<forall>n. xc (offset (frames L D n (onPointerUp pointerId s'))) = xc (offset s)"
    and mx0: "xc (offset s') - xc (offset s) = 0"
    if "xc (offset s) = minX L D \<and> dx < 0 \<or> xc (offset s) = 0 \<and> 0 < dx"
  proof -
    show m: "xc (offset s') - xc (offset s) = 0"
      using that bx by (auto simp: off max_def min_def)
    have "pinnedX L D (onPointerUp pointerId s')"
      using that m by (auto simp: pinnedX_def up vel)
    from pinnedX_frames [OF this] m
    show "\<forall>n. xc (offset (frames L D n (onPointerUp pointerId s'))) = xc (offset s)"
      by (simp add: up)
  qed
  have py: "\<forall>n. yc (offset (frames L D n (onPointerUp pointerId s'))) = yc (offset s)"
    and my0: "yc (offset s') - yc (offset s) = 0"
    if "yc (offset s) = minY L D \<and> dy < 0 \<or> yc (offset s) = 0 \<and> 0 < dy"
  proof -
    show m: "yc (offset s') - yc (offset s) = 0"
      using that "by" by (auto simp: off max_def min_def)
    have "pinnedY L D (onPointerUp pointerId s')"
      using that m by (auto simp: pinnedY_def up vel)
    from pinnedY_frames [OF this] m
    show "\<forall>n. yc (offset (frames L D n (onPointerUp pointerId s'))) = yc (offset s)"
      by (simp add: up)
  qed
  have ax: "\<bar>xc (offset s') - xc (offset s)\<bar> \<le> \<bar>dx\<bar>"
    by (simp only: off vec.select_convs) (rule move_axis(1) [OF bx])
  have sx: "xc (offset s') - xc (offset s) = 0 \<or> sgn (xc (offset s') - xc (offset s)) = sgn dx"
    by (simp only: off vec.select_convs) (rule move_axis(2) [OF bx])
  have ay: "\<bar>yc (offset s') - yc (offset s)\<bar> \<le> \<bar>dy\<bar>"
    by (simp only: off vec.select_convs) (rule move_axis(1) [OF "by"])
  have sy: "yc (offset s') - yc (offset s) = 0 \<or> sgn (yc (offset s') - yc (offset s)) = sgn dy"
    by (simp only: off vec.select_convs) (rule move_axis(2) [OF "by"])
  have pend: "1 \<le> inertiaPending (onPointerUp pointerId s')"
    by (simp add: onPointerUp_fields)
  have vup: "velocity (onPointerUp pointerId s') = \<lparr>xc = dx, yc = dy\<rparr>"
    by (simp only: up vel)
  show ?thesis
    unfolding Let_def s'_def [symmetric] dx_def [symmetric] dy_def [symmetric]
    using ax sx ay sy vel vup pend px mx0 py my0 by blast
qed

theorem move_shortened_witness:
  "isDragging paused
   \<and> inBounds (boundsOf cardsLayout smallWindow) (offset paused)
   \<and> offset (onPointerMove cardsLayout smallWindow 95 105 paused) = \<lparr>xc = - 5, yc = 0\<rparr>
   \<and> velocity (onPointerMove cardsLayout smallWindow 95 105 paused) = \<lparr>xc = 5, yc = 5\<rparr>
   \<and> yc (offset (frames cardsLayout smallWindow 2
          (onPointerUp 1 (onPointerMove cardsLayout smallWindow 95 105 paused)))) = 0
   \<and> isDragging resized
   \<and> inBounds (boundsOf cardsLayout smallWindow) (offset resized)
   \<and> xc (offset (onPointerMove cardsLayout smallWindow 400 100 resized)) = - 1712
   \<and> velocity (onPointerMove cardsLayout smallWindow 400 100 resized) = \<lparr>xc = - 100, yc = 0\<rparr>
   \<and> xc (offset (frames cardsLayout smallWindow 2
          (onPointerUp 1 (onPointerMove cardsLayout smallWindow 400 100 resized)))) = - 1712"
proof -
  have drag: "isDragging paused"
    by (simp add: paused_eq)
  have inb: "inBounds (boundsOf cardsLayout smallWindow) (offset paused)"
    by (simp add: paused_eq inBounds_def boundsOf_def minX_def minY_def containerWidth_def
        cardsLayout_def smallWindow_def)
  have pos: "lastPos paused = \<lparr>xc = 90, yc = 100\<rparr>" "offset paused = \<lparr>xc = - 10, yc = 0\<rparr>"
    by (simp_all add: paused_eq)
  from move_shortened [OF drag inb, of 95 105 1]
  have a: "velocity (onPointerMove cardsLayout smallWindow 95 105 paused) = \<lparr>xc = 5, yc = 5\<rparr>"
    and b: "\<forall>n. yc (offset (frames cardsLayout smallWindow n
          (onPointerUp 1 (onPointerMove cardsLayout smallWindow 95 105 paused)))) = 0"
    unfolding Let_def pos by simp_all
  have c: "offset (onPointerMove cardsLayout smallWindow 95 105 paused) = \<lparr>xc = - 5, yc = 0\<rparr>"
    by (simp add: paused_eq handler_defs cardsLayout_def smallWindow_def)
  have drag': "isDragging resized"
    by (simp add: resized_eq)
  have mx: "minX cardsLayout smallWindow = - 1712"
    by (simp add: minX_def containerWidth_def cardsLayout_def smallWindow_def)
  have inb': "inBounds (boundsOf cardsLayout smallWindow) (offset resized)"
    by (simp add: resized_eq inBounds_def boundsOf_def mx minY_le_0)
  have pos': "lastPos resized = \<lparr>xc = 500, yc = 100\<rparr>" "offset resized = \<lparr>xc = - 1712, yc = 0\<rparr>"
    by (simp_all add: resized_eq)
  from move_shortened [OF drag' inb', of 400 100 1]
  have d: "velocity (onPointerMove cardsLayout smallWindow 400 100 resized) = \<lparr>xc = - 100, yc = 0\<rparr>"
    and e: "xc (offset (onPointerMove cardsLayout smallWindow 400 100 resized)) - - 1712 = 0"
    and f: "\<forall>n. xc (offset (frames cardsLayout smallWindow n
          (onPointerUp 1 (onPointerMove cardsLayout smallWindow 400 100 resized)))) = - 1712"
    unfolding Let_def pos' mx by simp_all
  from e have e': "xc (offset (onPointerMove cardsLayout smallWindow 400 100 resized)) = - 1712"
    by simp
  show ?thesis using drag inb a b c drag' inb' d e' f by simp
qed

text \<open>
  Without the proviso the claim fails: after the window was widened, a move of 1 to the
  left takes the offset from -1712 to -1212, 500 to the right.
\<close>

theorem move_shortened_counterexample:
  "isDragging resized
   \<and> lastPos resized = \<lparr>xc = 500, yc = 100\<rparr>
   \<and> offset resized = \<lparr>xc = - 1712, yc = 0\<rparr>
   \<and> offset (onPointerMove cardsLayout wideWindow 499 100 resized) = \<lparr>xc = - 1212, yc = 0\<rparr>"
  by (simp add: resized_eq handler_defs cardsLayout_def wideWindow_def)

lemma released_eq:
  "released =
    \<lparr>offset = \<lparr>xc = - 20, yc = 0\<rparr>,
     isDragging = False,
     lastPos = \<lparr>xc = 90, yc = 100\<rparr>,
     velocity = \<lparr>xc = - 9, yc = 0\<rparr>,
     animationFrame = Some 3,
     transform = Some \<lparr>xc = - 20, yc = 0\<rparr>,
     capture = None,
     pending = [(3, AnimateMomentum)],
     nextHandle = 4\<rparr>"
  by (simp add: released_def Canvas_def handler_defs cardsLayout_def smallWindow_def)

lemma doubled_eq:
  "doubled =
    \<lparr>offset = \<lparr>xc = - 20, yc = 0\<rparr>,
     isDragging = False,
     lastPos = \<lparr>xc = 90, yc = 100\<rparr>,
     velocity = \<lparr>xc = - 9, yc = 0\<rparr>,
     animationFrame = Some 4,
     transform = Some \<lparr>xc = - 20, yc = 0\<rparr>,
     capture = None,
     pending = [(3, AnimateMomentum), (4, AnimateMomentum)],
     nextHandle = 5\<rparr>"
  by (simp add: doubled_def released_eq handler_defs)

text \<open>
  Claim C2 does not hold of the code: \<open>onPointerUp\<close> has no test of \<open>isDragging\<close>. While
  the inertia of a released drag runs, the pointer leaving the container queues a second
  inertia step and overwrites the stored handle; at the next display refresh both steps
  run, and the offset is at -37.1 where it would have been at -29, the velocity at -7.29
  where it would have been at -8.1. In the initial state a release queues a step as well.
\<close>

theorem release_while_idle:
  "isDragging released = False
   \<and> inertiaPending released = 1
   \<and> animationFrame released = Some 3
   \<and> inertiaPending (dispatch cardsLayout smallWindow (PointerLeave 1) released) = 2
   \<and> animationFrame (dispatch cardsLayout smallWindow (PointerLeave 1) released) = Some 4
   \<and> offset (frames cardsLayout smallWindow 1 released) = \<lparr>xc = - 29, yc = 0\<rparr>
   \<and> velocity (frames cardsLayout smallWindow 1 released) = \<lparr>xc = - (81 / 10), yc = 0\<rparr>
   \<and> offset (frames cardsLayout smallWindow 1
         (dispatch cardsLayout smallWindow (PointerLeave 1) released))
       = \<lparr>xc = - (371 / 10), yc = 0\<rparr>
   \<and> velocity (frames cardsLayout smallWindow 1
         (dispatch cardsLayout smallWindow (PointerLeave 1) released))
       = \<lparr>xc = - (729 / 100), yc = 0\<rparr>
   \<and> inertiaPending (dispatch cardsLayout smallWindow (PointerUp 1) Canvas) = 1"
  by (simp add: released_eq Canvas_def handler_defs cardsLayout_def smallWindow_def)

text \<open>
  Claim C3 does not hold of the code: \<open>onPointerDown\<close> cancels the stored handle only. With
  two inertia steps queued, one is left after the press, and at the next display refresh
  it moves the offset during the drag, from -30 to -40.
\<close>

theorem gesture_start_leaves_inertia:
  "inertiaPending doubled = 2
   \<and> inertiaPending (onPointerDown 1 90 100 doubled) = 1
   \<and> offset (run cardsLayout
         [(smallWindow, PointerDown 1 90 100), (smallWindow, PointerMove 80 100)] doubled)
       = \<lparr>xc = - 30, yc = 0\<rparr>
   \<and> isDragging (run cardsLayout
         [(smallWindow, PointerDown 1 90 100), (smallWindow, PointerMove 80 100),
          (smallWindow, Frame)] doubled)
   \<and> offset (run cardsLayout
         [(smallWindow, PointerDown 1 90 100), (smallWindow, PointerMove 80 100),
          (smallWindow, Frame)] doubled)
       = \<lparr>xc = - 40, yc = 0\<rparr>"
  by (simp add: doubled_eq handler_defs cardsLayout_def smallWindow_def)

text \<open>
  When the only queued inertia step is the one whose handle is stored, the press cancels it.
\<close>

lemma onPointerDown_cancels_stored:
  assumes "filter (\<lambda>p. snd p = AnimateMomentum) (pending s) = [(h, AnimateMomentum)]"
    and "animationFrame s = Some h" and "h \<noteq> 0"
  shows "inertiaPending (onPointerDown pid cx cy s) = 0"
proof -
  have "filter (\<lambda>p. snd p = AnimateMomentum) (filter (\<lambda>p. fst p \<noteq> h) (pending s))
        = filter (\<lambda>p. fst p \<noteq> h) (filter (\<lambda>p. snd p = AnimateMomentum) (pending s))"
    by (simp add: conj_commute)
  then show ?thesis using assms
    by (simp add: onPointerDown_def Let_def setPointerCapture_def cancelAnimationFrame_def
        inertiaPending_def)
qed

subsection \<open>The clamped drag\<close>

lemma offset_nonpos_dispatch:
  "xc (offset s) \<le> 0 \<Longrightarrow> xc (offset (dispatch L D e s)) \<le> 0"
  using offset_dispatch [of L D e s] by (auto simp: inBounds_def)

lemma offset_nonpos_run:
  "xc (offset s) \<le> 0 \<Longrightarrow> xc (offset (run L des s)) \<le> 0"
  by (induction des arbitrary: s) (simp_all add: offset_nonpos_dispatch)

lemma onPointerMove_fields:
  assumes "isDragging s"
  shows "isDragging (onPointerMove L D cx cy s)"
    and "lastPos (onPointerMove L D cx cy s) = \<lparr>xc = cx, yc = cy\<rparr>"
    and "velocity (onPointerMove L D cx cy s) = \<lparr>xc = cx - xc (lastPos s), yc = cy - yc (lastPos s)\<rparr>"
    and "xc (offset (onPointerMove L D cx cy s)) = max (minX L D) (min 0 (xc (offset s) + (cx - xc (lastPos s))))"
  using assms by (simp_all add: onPointerMove_def Let_def requestAnimationFrame_def)

lemma leftward_step:
  fixes m o' x x' X0 :: real
  assumes "o' \<le> max m (x - X0)" and "x' \<le> x"
  shows "max m (min 0 (o' + (x' - x))) \<le> max m (x' - X0)"
  using assms by (auto simp: max_def min_def split: if_splits)

lemma moves_leftward:
  assumes "isDragging s"
    and "leftward (xc (lastPos s)) ps"
    and "xc (offset s) \<le> max (minX L D) (xc (lastPos s) - X0)"
  shows "isDragging (run L (moves D ps) s)
     \<and> xc (lastPos (run L (moves D ps) s)) = endX (xc (lastPos s)) ps
     \<and> xc (offset (run L (moves D ps) s))
         \<le> max (minX L D) (xc (lastPos (run L (moves D ps) s)) - X0)
     \<and> (ps \<noteq> [] \<or> inBounds (boundsOf L D) (offset s) \<and> xc (velocity s) \<le> 0 \<longrightarrow>
          inBounds (boundsOf L D) (offset (run L (moves D ps) s))
          \<and> xc (velocity (run L (moves D ps) s)) \<le> 0)"
  using assms
proof (induction ps arbitrary: s)
  case Nil
  then show ?case by (simp add: moves_def)
next
  case (Cons p ps)
  define s1 where "s1 = onPointerMove L D (fst p) (snd p) s"
  note f = onPointerMove_fields [OF Cons.prems(1), of L D "fst p" "snd p", folded s1_def]
  have le: "fst p \<le> xc (lastPos s)" and rest: "leftward (fst p) ps"
    using Cons.prems(2) by simp_all
  have d: "isDragging s1" by (rule f(1))
  have l: "leftward (xc (lastPos s1)) ps" using rest by (simp add: f(2))
  have u: "xc (offset s1) \<le> max (minX L D) (xc (lastPos s1) - X0)"
    using leftward_step [OF Cons.prems(3) le] by (simp add: f(2) f(4))
  have w: "inBounds (boundsOf L D) (offset s1) \<and> xc (velocity s1) \<le> 0"
    using inBounds_onPointerMove [OF Cons.prems(1), of L D "fst p" "snd p"] le
    by (simp add: s1_def [symmetric] f(3))
  have r: "run L (moves D (p # ps)) s = run L (moves D ps) s1"
    by (simp add: moves_def s1_def)
  have lastx: "endX (xc (lastPos s1)) ps = endX (xc (lastPos s)) (p # ps)"
    by (simp add: f(2))
  note ih = Cons.IH [OF d l u]
  have c1: "isDragging (run L (moves D ps) s1)"
    using ih by blast
  have c2: "xc (lastPos (run L (moves D ps) s1)) = endX (xc (lastPos s1)) ps"
    using ih by blast
  have c3: "xc (offset (run L (moves D ps) s1))
         \<le> max (minX L D) (xc (lastPos (run L (moves D ps) s1)) - X0)"
    using ih by blast
  have c4: "inBounds (boundsOf L D) (offset (run L (moves D ps) s1))
          \<and> xc (velocity (run L (moves D ps) s1)) \<le> 0"
    using ih w by blast
  show ?case
    unfolding r lastx [symmetric] using c1 c2 c3 c4 by blast
qed

text \<open>
  Claim C8, amended. With a container 500 wide, a window 500 high, content 2000 wide and cards at
  most 150 tall, the bounds are \<open>minX = -1500\<close> and \<open>minY = 0\<close>. After any earlier events, a
  gesture whose moves all go to the left and end 3000 to the left of the press leaves the
  offset at exactly (-1500, 0): at the release and after any number of display refreshes
  that follow it.
\<close>

theorem clamped_drag:
  assumes cw: "containerWidth D = 500" and ih: "innerHeight D = 500"
    and left: "leftward (fst p0) ps"
    and total: "endX (fst p0) ps = fst p0 - 3000"
  shows "minX scenarioLayout D = - 1500 \<and> minY scenarioLayout D = 0
     \<and> (\<forall>k. offset (frames scenarioLayout D k
            (run scenarioLayout (gesture D pointerId p0 ps) (run scenarioLayout des Canvas)))
          = \<lparr>xc = - 1500, yc = 0\<rparr>)"
proof -
  let ?L = scenarioLayout
  define s0 where "s0 = run ?L des Canvas"
  define s1 where "s1 = onPointerDown pointerId (fst p0) (snd p0) s0"
  define s2 where "s2 = run ?L (moves D ps) s1"
  define s3 where "s3 = onPointerUp pointerId s2"
  have mx: "minX ?L D = - 1500" and my: "minY ?L D = 0"
    using cw ih by (simp_all add: minX_def minY_def scenarioLayout_def)
  have "xc (offset s0) \<le> 0"
    unfolding s0_def by (rule offset_nonpos_run) (simp add: Canvas_def)
  then have o1: "xc (offset s1) \<le> 0" by (simp add: s1_def)
  have d1: "isDragging s1" and l1: "lastPos s1 = \<lparr>xc = fst p0, yc = snd p0\<rparr>"
    by (simp_all add: s1_def onPointerDown_def Let_def setPointerCapture_def
        cancelAnimationFrame_def split: option.splits)
  have ne: "ps \<noteq> []" using total by auto
  have u1: "xc (offset s1) \<le> max (minX ?L D) (xc (lastPos s1) - fst p0)"
    using o1 by (simp add: l1 mx)
  have left1: "leftward (xc (lastPos s1)) ps" using left by (simp add: l1)
  from moves_leftward [OF d1 left1 u1] ne
  have lp: "xc (lastPos s2) = endX (xc (lastPos s1)) ps"
    and u2: "xc (offset s2) \<le> max (minX ?L D) (xc (lastPos s2) - fst p0)"
    and inb: "inBounds (boundsOf ?L D) (offset s2)"
    and v2: "xc (velocity s2) \<le> 0"
    unfolding s2_def [symmetric] by blast+
  have x2: "xc (offset s2) = - 1500"
    using u2 inb total by (simp add: lp l1 mx inBounds_def boundsOf_def)
  have y2: "yc (offset s2) = 0"
    using inb by (simp add: my inBounds_def boundsOf_def)
  have px: "pinnedX ?L D s3"
    using x2 v2 by (simp add: pinnedX_def s3_def onPointerUp_fields mx)
  have py: "pinnedY ?L D s3"
    using y2 by (auto simp: pinnedY_def s3_def onPointerUp_fields my)
  have "offset (frames ?L D k s3) = \<lparr>xc = - 1500, yc = 0\<rparr>" for k
  proof -
    have "xc (offset (frames ?L D k s3)) = - 1500" "yc (offset (frames ?L D k s3)) = 0"
      using pinnedX_frames [OF px, of k] pinnedY_frames [OF py, of k] x2 y2
      by (simp_all add: s3_def)
    then show ?thesis by (cases "offset (frames ?L D k s3)") simp
  qed
  moreover have "run ?L (gesture D pointerId p0 ps) s0 = s3"
    by (simp add: gesture_def run_append s3_def s2_def s1_def)
  ultimately show ?thesis using mx my by (simp add: s0_def)
qed

theorem clamped_drag_witness:
  "containerWidth squareWindow = 500 \<and> innerHeight squareWindow = 500
   \<and> leftward 3200 [(2000, 110), (1000, 90), (200, 100)]
   \<and> endX 3200 [(2000, 110), (1000, 90), (200, 100)] = 3200 - 3000
   \<and> offset (run scenarioLayout
         (gesture squareWindow 1 (3200, 100) [(2000, 110), (1000, 90), (200, 100)]) Canvas)
       = \<lparr>xc = - 1500, yc = 0\<rparr>
   \<and> offset (frames scenarioLayout squareWindow 5 (run scenarioLayout
         (gesture squareWindow 1 (3200, 100) [(2000, 110), (1000, 90), (200, 100)]) Canvas))
       = \<lparr>xc = - 1500, yc = 0\<rparr>"
proof -
  have cw: "containerWidth squareWindow = 500" and ih: "innerHeight squareWindow = 500"
    by (simp_all add: containerWidth_def squareWindow_def)
  have left: "leftward (fst (3200, 100)) [(2000, 110), (1000, 90), (200, 100)]"
    by simp
  have total: "endX (fst (3200, 100)) [(2000, 110), (1000, 90), (200, 100)] = fst (3200, 100) - 3000"
    by simp
  from clamped_drag [OF cw ih left total, of 1 "[]"]
  have "\<forall>k. offset (frames scenarioLayout squareWindow k
            (run scenarioLayout (gesture squareWindow 1 (3200, 100) [(2000, 110), (1000, 90), (200, 100)])
               Canvas))
          = \<lparr>xc = - 1500, yc = 0\<rparr>"
    by simp
  from this [rule_format, of 0] this [rule_format, of 5] cw ih show ?thesis
    by simp
qed

text \<open>
  Without the proviso that every move goes to the left the claim fails: pressed at 5000,
  moved to 1000 and back to 2000, the pointer ends 3000 to the left of the press and the
  offset at -500.
\<close>

theorem clamped_drag_counterexample:
  "endX 5000 [(1000, 100), (2000, 100)] = 5000 - 3000
   \<and> \<not> leftward 5000 [(1000, 100), (2000, 100)]
   \<and> minX scenarioLayout squareWindow = - 1500
   \<and> offset (run scenarioLayout
         (gesture squareWindow 1 (5000, 100) [(1000, 100), (2000, 100)]) Canvas)
       = \<lparr>xc = - 500, yc = 0\<rparr>"
  by (simp add: gesture_def moves_def Canvas_def handler_defs scenarioLayout_def squareWindow_def)

end
